theory Spec2Isabelle
  imports Main "HOL-Library.Sublist"
begin

section \<open>The file system as the code sees it\<close>

text \<open>
  The updater (\<^verbatim>\<open>src/updater.ts\<close>) and the system manager (\<^verbatim>\<open>src/system-manager.ts\<close>)
  reach the disk through \<^verbatim>\<open>existsSync\<close>, \<^verbatim>\<open>readFile\<close>, \<^verbatim>\<open>writeFile\<close>, \<^verbatim>\<open>unlink\<close>,
  \<^verbatim>\<open>mkdir\<close> and \<^verbatim>\<open>execSync\<close>. A path holds a regular file with its bytes, a directory, or
  nothing. Every call but \<^verbatim>\<open>existsSync\<close> can raise: for a reason visible in the tree
  (reading a directory, unlinking a missing file) or for one that is not (permissions, a
  full disk). The second kind is the list \<open>faults\<close>, of which each call consumes the head:
  \<open>Pass\<close> lets the call through, \<open>Refuse\<close> makes it raise before it has done anything,
  and \<open>Tear n\<close> makes it raise half way. For \<^verbatim>\<open>writeFile\<close>, which opens its target with the
  flag \<^verbatim>\<open>w\<close>, half way means that the target has been created or emptied and holds the
  first \<open>n\<close> bytes of the new content; for \<^verbatim>\<open>git submodule add\<close>, that the directory is
  left behind; for the other calls it is the same as \<open>Refuse\<close>. An empty list injects
  no failure. \<open>trace\<close> records every call issued, in order, with whether it succeeded.
  Paths are compared as the strings the code passes, and a write does not look at the
  directory its target lies in: a missing parent directory is one of the failures that
  \<open>faults\<close> stands for.
\<close>

type_synonym path = string

datatype node = File string | Dir

datatype io_call =
    ReadFile path
  | WriteFile path string
  | Unlink path
  | Mkdir path
  | ExecSync string path

datatype error =
    FsError io_call
  | ExecutionFailed string
  | External string

datatype fault = Pass | Refuse | Tear nat

record world =
  fs :: "path \<rightharpoonup> node"
  faults :: "fault list"
  trace :: "(io_call \<times> bool) list"

definition existsSync :: "path \<Rightarrow> world \<Rightarrow> bool" where
  "existsSync p w = (fs w p \<noteq> None)"

definition injected :: "world \<Rightarrow> bool" where
  "injected w = (case faults w of [] \<Rightarrow> False | f # fl \<Rightarrow> f \<noteq> Pass)"

definition consume :: "world \<Rightarrow> world" where
  "consume w = w\<lparr>faults := tl (faults w)\<rparr>"

definition raise_io :: "io_call \<Rightarrow> world \<Rightarrow> (error + 'a) \<times> world" where
  "raise_io c w = (Inl (FsError c), consume w\<lparr>trace := trace w @ [(c, False)]\<rparr>)"

definition done_io :: "io_call \<Rightarrow> 'a \<Rightarrow> world \<Rightarrow> (error + 'a) \<times> world" where
  "done_io c v w = (Inr v, consume w\<lparr>trace := trace w @ [(c, True)]\<rparr>)"

subsection \<open>Text and bytes\<close>

text \<open>
  The code reads with \<^verbatim>\<open>readFile(p, 'utf-8')\<close> and writes with \<^verbatim>\<open>writeFile(p, s, 'utf-8')\<close>:
  what it holds is a JavaScript string, what the disk holds is bytes. A string is stood
  for here by its UTF-8 encoding, the bytes that writing it produces. Reading decodes:
  a well-formed sequence stays as it is, and each maximal ill-formed part of the bytes
  becomes U+FFFD, whose encoding is \<open>EF BF BD\<close>. The decoder is the one of the Encoding
  Standard, which Node follows: \<open>needed\<close> continuation bytes are still expected, the
  next one within \<open>lower\<close> and \<open>upper\<close>, and \<open>seen\<close> holds the bytes of the sequence so
  far; a byte that cannot continue a sequence ends it with U+FFFD and is read again as
  the start of the next one. No byte order mark is removed.
\<close>

definition replacement :: string where
  "replacement = [CHR 0xEF, CHR 0xBF, CHR 0xBD]"

fun utf8_decoder :: "nat \<Rightarrow> nat \<Rightarrow> nat \<Rightarrow> string \<Rightarrow> string \<Rightarrow> string" where
  "utf8_decoder needed lower upper seen [] = (if needed = 0 then [] else replacement)"
| "utf8_decoder needed lower upper seen (b # bs) =
     (let v = (of_char b :: nat) in
      if needed = 0 then
        (if v \<le> 0x7F then b # utf8_decoder 0 0x80 0xBF [] bs
         else if 0xC2 \<le> v \<and> v \<le> 0xDF then utf8_decoder 1 0x80 0xBF [b] bs
         else if 0xE0 \<le> v \<and> v \<le> 0xEF then
           utf8_decoder 2 (if v = 0xE0 then 0xA0 else 0x80) (if v = 0xED then 0x9F else 0xBF) [b] bs
         else if 0xF0 \<le> v \<and> v \<le> 0xF4 then
           utf8_decoder 3 (if v = 0xF0 then 0x90 else 0x80) (if v = 0xF4 then 0x8F else 0xBF) [b] bs
         else replacement @ utf8_decoder 0 0x80 0xBF [] bs)
      else if v < lower \<or> upper < v then replacement @ utf8_decoder 0 0x80 0xBF [] (b # bs)
      else if needed = 1 then seen @ [b] @ utf8_decoder 0 0x80 0xBF [] bs
      else utf8_decoder (needed - 1) 0x80 0xBF (seen @ [b]) bs)"

definition utf8_decode :: "string \<Rightarrow> string" where
  "utf8_decode bytes = utf8_decoder 0 0x80 0xBF [] bytes"


subsection \<open>The calls\<close>

definition readFile :: "path \<Rightarrow> world \<Rightarrow> (error + string) \<times> world" where
  "readFile p w =
     (case fs w p of
        Some (File bytes) \<Rightarrow>
          if injected w then raise_io (ReadFile p) w
          else done_io (ReadFile p) (utf8_decode bytes) w
      | Some Dir \<Rightarrow> raise_io (ReadFile p) w
      | None \<Rightarrow> raise_io (ReadFile p) w)"

text \<open>The tree a \<^verbatim>\<open>writeFile\<close> that raises leaves behind.\<close>

definition torn :: "path \<Rightarrow> string \<Rightarrow> world \<Rightarrow> (path \<rightharpoonup> node)" where
  "torn p c w =
     (case faults w of
        Tear n # fl \<Rightarrow> if fs w p = Some Dir then fs w else (fs w)(p \<mapsto> File (take n c))
      | f # fl \<Rightarrow> fs w
      | [] \<Rightarrow> fs w)"

definition writeFile :: "path \<Rightarrow> string \<Rightarrow> world \<Rightarrow> (error + unit) \<times> world" where
  "writeFile p c w =
     (if injected w \<or> fs w p = Some Dir then raise_io (WriteFile p c) (w\<lparr>fs := torn p c w\<rparr>)
      else done_io (WriteFile p c) () (w\<lparr>fs := (fs w)(p \<mapsto> File c)\<rparr>))"

definition unlink :: "path \<Rightarrow> world \<Rightarrow> (error + unit) \<times> world" where
  "unlink p w =
     (case fs w p of
        Some (File c) \<Rightarrow>
          if injected w then raise_io (Unlink p) w
          else done_io (Unlink p) () (w\<lparr>fs := (fs w)(p := None)\<rparr>)
      | Some Dir \<Rightarrow> raise_io (Unlink p) w
      | None \<Rightarrow> raise_io (Unlink p) w)"

text \<open>\<^verbatim>\<open>mkdir(p, { recursive: true })\<close>: no error when the directory is already there.\<close>

definition mkdir :: "path \<Rightarrow> world \<Rightarrow> (error + unit) \<times> world" where
  "mkdir p w =
     (case fs w p of
        Some (File c) \<Rightarrow> raise_io (Mkdir p) w
      | Some Dir \<Rightarrow> if injected w then raise_io (Mkdir p) w else done_io (Mkdir p) () w
      | None \<Rightarrow>
          if injected w then raise_io (Mkdir p) w
          else done_io (Mkdir p) () (w\<lparr>fs := (fs w)(p \<mapsto> Dir)\<rparr>))"

section \<open>The transactional updater\<close>

datatype op_type = Write | Delete

record TransactionOp =
  type :: op_type
  op_file :: path
  content :: "string option"
  previousContent :: "string option"

text \<open>
  The loop of \<^verbatim>\<open>executeTransaction\<close> assigns \<^verbatim>\<open>op.previousContent\<close> on the caller's
  objects and pushes the same objects on \<^verbatim>\<open>completed\<close>. An op is therefore a reference
  into a store of op objects, and \<^verbatim>\<open>ops\<close> and \<^verbatim>\<open>completed\<close> are lists of references: the
  same object can stand twice in \<^verbatim>\<open>ops\<close>.
\<close>

type_synonym opref = nat
type_synonym store = "opref \<Rightarrow> TransactionOp"

record txstate =
  disk :: world
  objs :: store
  completed :: "opref list"

text \<open>\<^verbatim>\<open>op.previousContent = await readFile(op.file, 'utf-8')\<close>: the captured content
  is the decoded one.\<close>

definition capture :: "opref \<Rightarrow> txstate \<Rightarrow> error option \<times> txstate" where
  "capture i s =
     (case readFile (op_file (objs s i)) (disk s) of
        (Inl e, w1) \<Rightarrow> (Some e, s\<lparr>disk := w1\<rparr>)
      | (Inr c, w1) \<Rightarrow>
          (None, s\<lparr>disk := w1, objs := (objs s)(i := (objs s i)\<lparr>previousContent := Some c\<rparr>)\<rparr>))"

text \<open>One iteration of the loop over \<^verbatim>\<open>ops\<close> (step 1). Nothing else works on the disk
  between the calls of one transaction: the interleaving of other handlers at an
  \<^verbatim>\<open>await\<close> is not modelled.\<close>

definition apply_op :: "opref \<Rightarrow> txstate \<Rightarrow> error option \<times> txstate" where
  "apply_op i s =
     (let op = objs s i in
      case (type op, content op) of
        (Write, Some c) \<Rightarrow>
          (case (if existsSync (op_file op) (disk s) then capture i s else (None, s)) of
             (Some e, s1) \<Rightarrow> (Some e, s1)
           | (None, s1) \<Rightarrow>
               (case writeFile (op_file op) c (disk s1) of
                  (Inl e, w2) \<Rightarrow> (Some e, s1\<lparr>disk := w2\<rparr>)
                | (Inr u, w2) \<Rightarrow> (None, s1\<lparr>disk := w2, completed := completed s1 @ [i]\<rparr>)))
      | (Write, None) \<Rightarrow> (None, s)
      | (Delete, x) \<Rightarrow>
          (if existsSync (op_file op) (disk s) then
             (case capture i s of
                (Some e, s1) \<Rightarrow> (Some e, s1)
              | (None, s1) \<Rightarrow>
                  (case unlink (op_file op) (disk s1) of
                     (Inl e, w2) \<Rightarrow> (Some e, s1\<lparr>disk := w2\<rparr>)
                   | (Inr u, w2) \<Rightarrow> (None, s1\<lparr>disk := w2, completed := completed s1 @ [i]\<rparr>)))
           else (None, s)))"

fun apply_ops :: "opref list \<Rightarrow> txstate \<Rightarrow> error option \<times> txstate" where
  "apply_ops [] s = (None, s)"
| "apply_ops (i # ops) s =
     (case apply_op i s of
        (Some e, s1) \<Rightarrow> (Some e, s1)
      | (None, s1) \<Rightarrow> apply_ops ops s1)"

subsection \<open>The context manifest\<close>

text \<open>
  Modelled from the spec: the types \<^verbatim>\<open>ContextManifest\<close>, \<^verbatim>\<open>ContextRef\<close> and
  \<^verbatim>\<open>ContextFact\<close> are declared in the package \<^verbatim>\<open>@claudiv/core\<close>, which is not among the
  sources. The updater reads \<^verbatim>\<open>scopes\<close>, \<^verbatim>\<open>global\<close>, a scope's \<^verbatim>\<open>path\<close>, \<^verbatim>\<open>refs\<close> and
  \<^verbatim>\<open>facts\<close>, and a ref's \<^verbatim>\<open>file\<close>; the data model of the spec gives every scope, the
  global one included, an ordered collection of refs and one of facts, a ref a file and
  metadata, a fact a text and a source tag. With these types the test
  \<^verbatim>\<open>'facts' in targetScope\<close> of step 3 is always true.
\<close>

record ContextRef =
  ref_file :: path
  ref_meta :: string

record ContextFact =
  fact_text :: string
  fact_source :: string

record GlobalScope =
  refs :: "ContextRef list"
  facts :: "ContextFact list"

record Scope = GlobalScope +
  path :: string

record ContextManifest =
  forFile :: string
  global :: GlobalScope
  scopes :: "Scope list"

text \<open>\<^verbatim>\<open>Array.prototype.findIndex\<close>: the first index whose element passes, \<open>None\<close> for -1.\<close>

fun findIndex :: "('a \<Rightarrow> bool) \<Rightarrow> 'a list \<Rightarrow> nat option" where
  "findIndex P [] = None"
| "findIndex P (x # xs) = (if P x then Some 0 else map_option Suc (findIndex P xs))"

text \<open>The body of the loop over \<^verbatim>\<open>newRefs\<close> (step 2), on the scope's \<^verbatim>\<open>refs\<close> array.\<close>

definition upsert_ref :: "ContextRef \<Rightarrow> ContextRef list \<Rightarrow> ContextRef list" where
  "upsert_ref r rs =
     (case findIndex (\<lambda>x. ref_file x = ref_file r) rs of
        Some existing \<Rightarrow> rs[existing := r]
      | None \<Rightarrow> rs @ [r])"

fun update_refs :: "ContextRef list \<Rightarrow> ContextRef list \<Rightarrow> ContextRef list" where
  "update_refs rs [] = rs"
| "update_refs rs (r # newRefs) = update_refs (upsert_ref r rs) newRefs"

text \<open>
  \<^verbatim>\<open>scopes.find(s => s.path === scopePath)\<close> yields the first matching scope object, which
  steps 2 and 3 then mutate in place: here, the index of that scope.
\<close>

definition find_scope :: "ContextManifest \<Rightarrow> string \<Rightarrow> nat option" where
  "find_scope m scopePath = findIndex (\<lambda>s. path s = scopePath) (scopes m)"

definition step2 :: "nat option \<Rightarrow> ContextRef list \<Rightarrow> ContextManifest \<Rightarrow> ContextManifest" where
  "step2 scope newRefs m =
     (case scope of
        Some k \<Rightarrow>
          m\<lparr>scopes := (scopes m)[k := (scopes m ! k)\<lparr>refs := update_refs (refs (scopes m ! k)) newRefs\<rparr>]\<rparr>
      | None \<Rightarrow> m)"

definition step3 :: "nat option \<Rightarrow> ContextFact list \<Rightarrow> ContextManifest \<Rightarrow> ContextManifest" where
  "step3 scope newFacts m =
     (if newFacts \<noteq> [] then
        (case scope of
           Some k \<Rightarrow>
             m\<lparr>scopes := (scopes m)[k := (scopes m ! k)\<lparr>facts := facts (scopes m ! k) @ newFacts\<rparr>]\<rparr>
         | None \<Rightarrow> m\<lparr>global := (global m)\<lparr>facts := facts (global m) @ newFacts\<rparr>\<rparr>)
      else m)"

definition update_manifest ::
  "ContextManifest \<Rightarrow> ContextRef list \<Rightarrow> ContextFact list \<Rightarrow> string \<Rightarrow> ContextManifest" where
  "update_manifest m newRefs newFacts scopePath =
     (let scope = find_scope m scopePath in step3 scope newFacts (step2 scope newRefs m))"

subsection \<open>The transaction\<close>

text \<open>
  The \<^verbatim>\<open>try\<close> block: steps 1 to 4. \<open>serialize\<close> stands for
  \<^verbatim>\<open>serializeContextManifest\<close> of \<^verbatim>\<open>@claudiv/core\<close>. The manifest object is mutated in
  place, so the caller holds the returned manifest whether the block raises or not.
\<close>

definition try_block ::
  "(ContextManifest \<Rightarrow> string) \<Rightarrow> opref list \<Rightarrow> ContextManifest \<Rightarrow> path \<Rightarrow>
   ContextRef list \<Rightarrow> ContextFact list \<Rightarrow> string \<Rightarrow> txstate \<Rightarrow>
   error option \<times> txstate \<times> ContextManifest" where
  "try_block serialize ops m contextPath newRefs newFacts scopePath s =
     (case apply_ops ops s of
        (Some e, s1) \<Rightarrow> (Some e, s1, m)
      | (None, s1) \<Rightarrow>
          (let m2 = update_manifest m newRefs newFacts scopePath in
           case writeFile contextPath (serialize m2) (disk s1) of
             (Inl e, w2) \<Rightarrow> (Some e, s1\<lparr>disk := w2\<rparr>, m2)
           | (Inr u, w2) \<Rightarrow> (None, s1\<lparr>disk := w2\<rparr>, m2)))"

text \<open>The body of the \<^verbatim>\<open>try\<close> inside the rollback loop, for one completed op.\<close>

definition undo :: "TransactionOp \<Rightarrow> world \<Rightarrow> (error + unit) \<times> world" where
  "undo op w =
     (case (type op, previousContent op) of
        (Write, Some prev) \<Rightarrow> writeFile (op_file op) prev w
      | (Write, None) \<Rightarrow>
          (if existsSync (op_file op) w then unlink (op_file op) w else (Inr (), w))
      | (Delete, Some prev) \<Rightarrow> writeFile (op_file op) prev w
      | (Delete, None) \<Rightarrow> (Inr (), w))"

text \<open>
  The rollback loop. Each iteration has its own \<^verbatim>\<open>try\<close>/\<^verbatim>\<open>catch\<close>; the list returned
  beside the world has one entry per iteration, in iteration order: the op and the
  error caught there (the \<^verbatim>\<open>Rollback failed for ...\<close> line of the log), if any.
\<close>

fun rollback :: "store \<Rightarrow> opref list \<Rightarrow> world \<Rightarrow> world \<times> (opref \<times> error option) list" where
  "rollback h [] w = (w, [])"
| "rollback h (i # rest) w =
     (case undo (h i) w of
        (Inl rollbackError, w1) \<Rightarrow>
          (case rollback h rest w1 of (w2, lg) \<Rightarrow> (w2, (i, Some rollbackError) # lg))
      | (Inr u, w1) \<Rightarrow>
          (case rollback h rest w1 of (w2, lg) \<Rightarrow> (w2, (i, None) # lg)))"

record outcome =
  raised :: "error option"
  state :: txstate
  manifest :: ContextManifest
  rolled :: "(opref \<times> error option) list"

definition executeTransaction ::
  "(ContextManifest \<Rightarrow> string) \<Rightarrow> opref list \<Rightarrow> ContextManifest \<Rightarrow> path \<Rightarrow>
   ContextRef list \<Rightarrow> ContextFact list \<Rightarrow> string \<Rightarrow> world \<Rightarrow> store \<Rightarrow> outcome" where
  "executeTransaction serialize ops m contextPath newRefs newFacts scopePath w h =
     (case try_block serialize ops m contextPath newRefs newFacts scopePath
             \<lparr>disk = w, objs = h, completed = []\<rparr> of
        (None, s1, m1) \<Rightarrow> \<lparr>raised = None, state = s1, manifest = m1, rolled = []\<rparr>
      | (Some e, s1, m1) \<Rightarrow>
          (case rollback (objs s1) (rev (completed s1)) (disk s1) of
             (w2, lg) \<Rightarrow> \<lparr>raised = Some e, state = s1\<lparr>disk := w2\<rparr>, manifest = m1, rolled = lg\<rparr>))"


text \<open>The path a call works on (for \<^verbatim>\<open>execSync\<close>, its working directory).\<close>

fun call_path :: "io_call \<Rightarrow> path" where
  "call_path (ReadFile p) = p"
| "call_path (WriteFile p c) = p"
| "call_path (Unlink p) = p"
| "call_path (Mkdir p) = p"
| "call_path (ExecSync cmd cwd) = cwd"

fun is_write :: "io_call \<Rightarrow> bool" where
  "is_write (WriteFile p c) = True"
| "is_write c = False"

text \<open>The restoring writes a rollback over \<open>ops\<close> has to issue: one for each op that
  captured a previous content, none for the others.\<close>

definition restore_calls :: "store \<Rightarrow> opref list \<Rightarrow> io_call list" where
  "restore_calls h ops =
     concat (map (\<lambda>i. case previousContent (h i) of
                          Some prev \<Rightarrow> [WriteFile (op_file (h i)) prev]
                        | None \<Rightarrow> []) ops)"

text \<open>The next \<^verbatim>\<open>writeFile\<close> on \<open>p\<close> does not raise.\<close>

definition can_write :: "path \<Rightarrow> world \<Rightarrow> bool" where
  "can_write p w = (\<not> injected w \<and> fs w p \<noteq> Some Dir)"

text \<open>Reading the refs of a scope after a transaction: the last ref of \<open>newRefs\<close> for a
  file, the ref a given ref has become, and the refs of \<open>newRefs\<close> that are the first to
  name a file not seen so far.\<close>

fun latest :: "path \<Rightarrow> ContextRef list \<Rightarrow> ContextRef option" where
  "latest f [] = None"
| "latest f (x # xs) =
     (case latest f xs of
        Some y \<Rightarrow> Some y
      | None \<Rightarrow> if ref_file x = f then Some x else None)"

definition replaced :: "ContextRef list \<Rightarrow> ContextRef \<Rightarrow> ContextRef" where
  "replaced newRefs x = (case latest (ref_file x) newRefs of Some y \<Rightarrow> y | None \<Rightarrow> x)"

fun firsts :: "ContextRef list \<Rightarrow> path set \<Rightarrow> ContextRef list" where
  "firsts [] seen = []"
| "firsts (x # xs) seen =
     (if ref_file x \<in> seen then firsts xs seen else x # firsts xs (insert (ref_file x) seen))"

text \<open>The refs a scope had, after step 2: a ref that is the first of the array to name its
  file has become the last ref of \<open>newRefs\<close> for that file, when there is one; a later ref
  for a file already seen is as it was.\<close>

fun overwrite :: "ContextRef list \<Rightarrow> path set \<Rightarrow> ContextRef list \<Rightarrow> ContextRef list" where
  "overwrite newRefs seen [] = []"
| "overwrite newRefs seen (x # xs) =
     (if ref_file x \<in> seen then x else replaced newRefs x) #
     overwrite newRefs (insert (ref_file x) seen) xs"

text \<open>The fact lists of a manifest: the global scope's first, then each scope's.\<close>

definition fact_lists :: "ContextManifest \<Rightarrow> ContextFact list list" where
  "fact_lists m = facts (global m) # map facts (scopes m)"

definition target_index :: "ContextManifest \<Rightarrow> string \<Rightarrow> nat" where
  "target_index m scopePath = (case find_scope m scopePath of Some k \<Rightarrow> Suc k | None \<Rightarrow> 0)"

text \<open>
  A caller running transactions one after the other on the same manifest object, the
  same disk and the same op objects, whatever each one's outcome.
\<close>

type_synonym request = "opref list \<times> path \<times> ContextRef list \<times> ContextFact list \<times> string"

fun run_transactions ::
  "(ContextManifest \<Rightarrow> string) \<Rightarrow> request list \<Rightarrow> ContextManifest \<times> world \<times> store \<Rightarrow>
   ContextManifest \<times> world \<times> store" where
  "run_transactions serialize [] st = st"
| "run_transactions serialize ((ops, contextPath, newRefs, newFacts, scopePath) # reqs) (m, w, h) =
     (let r = executeTransaction serialize ops m contextPath newRefs newFacts scopePath w h
      in run_transactions serialize reqs (manifest r, disk (state r), objs (state r)))"

section \<open>The system manager\<close>

record SystemComponent =
  name :: string
  component_type :: string
  submodule :: bool
  description :: "string option"

record SystemProject =
  system_name :: string
  components :: "SystemComponent list"
  manifestPath :: string

text \<open>\<^verbatim>\<open>path.join\<close> on two segments; its normalisation of \<^verbatim>\<open>.\<close>, \<^verbatim>\<open>..\<close> and doubled
  separators is not modelled.\<close>

definition join :: "path \<Rightarrow> string \<Rightarrow> path" where
  "join a b = a @ ''/'' @ b"

definition generateComponentSkeleton :: "SystemComponent \<Rightarrow> string \<Rightarrow> string" where
  \<open>generateComponentSkeleton component systemName =
     (let fqn = systemName @ '':'' @ name component;
          desc = (case description component of
                    Some d \<Rightarrow> if d \<noteq> [] then ''\<newline>    <!-- '' @ d @ '' -->'' else ''''
                  | None \<Rightarrow> '''')
      in ''<component name="'' @ name component @ ''" fqn="'' @ fqn @ ''">\<newline>'' @
         ''\<newline>'' @
         ''  <interface>'' @ desc @ ''\<newline>'' @
         ''    <!-- Define what this component exposes -->\<newline>'' @
         ''  </interface>\<newline>'' @
         ''\<newline>'' @
         ''  <constraints>\<newline>'' @
         ''    <!-- Define environment requirements -->\<newline>'' @
         ''  </constraints>\<newline>'' @
         ''\<newline>'' @
         ''  <requires>\<newline>'' @
         ''    <!-- Define dependencies by interface -->\<newline>'' @
         ''  </requires>\<newline>'' @
         ''\<newline>'' @
         ''  <implementation target="typescript" type="'' @ component_type component @ ''">\<newline>'' @
         ''    <modules>\<newline>'' @
         ''      <!-- Define internal modules -->\<newline>'' @
         ''    </modules>\<newline>'' @
         ''  </implementation>\<newline>'' @
         ''\<newline>'' @
         ''</component>\<newline>'')\<close>

definition generateComponentContext :: "SystemComponent \<Rightarrow> string \<Rightarrow> string" where
  \<open>generateComponentContext component systemName =
     ''<claudiv-context for="'' @ name component @ ''.cdml" auto-generated="true">\<newline>'' @
     ''  <global>\<newline>'' @
     ''    <refs></refs>\<newline>'' @
     ''    <facts>\<newline>'' @
     ''      <fact>Part of system: '' @ systemName @ ''</fact>\<newline>'' @
     ''      <fact>Component type: '' @ component_type component @ ''</fact>\<newline>'' @
     ''    </facts>\<newline>'' @
     ''  </global>\<newline>'' @
     ''</claudiv-context>\<newline>''\<close>

text \<open>\<^verbatim>\<open>xs.join('\n')\<close>\<close>

fun join_lines :: "string list \<Rightarrow> string" where
  "join_lines [] = ''''"
| "join_lines [x] = x"
| "join_lines (x # y # ys) = x @ ''\<newline>'' @ join_lines (y # ys)"

definition project_manifest_content :: "SystemProject \<Rightarrow> string" where
  \<open>project_manifest_content system =
     (let directories =
            join_lines (map (\<lambda>c. ''    <directory path="'' @ name c @ ''/" pattern="*.cdml" />'')
                          (components system))
      in ''<project name="'' @ system_name system @ ''">\<newline>'' @
         ''  <auto-discover>\<newline>'' @
         ''    <directory path="." pattern="*.cdml" />\<newline>'' @
         directories @ ''\<newline>'' @
         ''    <directory path="aspects/" pattern="*.*.cdml" />\<newline>'' @
         ''  </auto-discover>\<newline>'' @
         ''</project>\<newline>'')\<close>

definition updateProjectManifest :: "SystemProject \<Rightarrow> path \<Rightarrow> world \<Rightarrow> (error + unit) \<times> world" where
  "updateProjectManifest system projectRoot w =
     writeFile (join projectRoot ''claudiv.project.cdml'') (project_manifest_content system) w"

text \<open>
  \<^verbatim>\<open>execSync('git submodule add --name N . N', { cwd: projectRoot })\<close>. When git succeeds the
  component directory is there, and a git that fails half way can leave it behind; what
  else git writes is outside this model.
\<close>

definition git_submodule_add :: "string \<Rightarrow> path \<Rightarrow> world \<Rightarrow> (error + unit) \<times> world" where
  "git_submodule_add n projectRoot w =
     (let call = ExecSync (''git submodule add --name '' @ n @ '' . '' @ n) projectRoot;
          made = w\<lparr>fs := (fs w)(join projectRoot n \<mapsto> Dir)\<rparr>
      in if injected w then
           raise_io call (case faults w of Tear k # fl \<Rightarrow> made | f # fl \<Rightarrow> w | [] \<Rightarrow> w)
         else done_io call () made)"

text \<open>\<^verbatim>\<open>if (!existsSync(d)) await mkdir(d, { recursive: true })\<close>\<close>

definition ensure_dir :: "path \<Rightarrow> world \<Rightarrow> error option \<times> world" where
  "ensure_dir d w =
     (if \<not> existsSync d w then
        (case mkdir d w of (Inl e, w1) \<Rightarrow> (Some e, w1) | (Inr u, w1) \<Rightarrow> (None, w1))
      else (None, w))"

text \<open>Step 1 of the loop body: the directory, or the submodule with its fallback.\<close>

definition create_dir :: "SystemComponent \<Rightarrow> path \<Rightarrow> world \<Rightarrow> error option \<times> world" where
  "create_dir component projectRoot w =
     (let componentDir = join projectRoot (name component) in
      if submodule component then
        (if \<not> existsSync componentDir w then
           (case git_submodule_add (name component) projectRoot w of
              (Inr u, w1) \<Rightarrow> (None, w1)
            | (Inl e, w1) \<Rightarrow> ensure_dir componentDir w1)
         else (None, w))
      else ensure_dir componentDir w)"

text \<open>\<^verbatim>\<open>if (!existsSync(p)) { await writeFile(p, text); created.push(label) }\<close>\<close>

definition write_if_absent ::
  "path \<Rightarrow> string \<Rightarrow> string \<Rightarrow> world \<times> string list \<Rightarrow> error option \<times> world \<times> string list" where
  "write_if_absent p txt label s =
     (case s of (w, created) \<Rightarrow>
        if \<not> existsSync p w then
          (case writeFile p txt w of
             (Inl e, w1) \<Rightarrow> (Some e, w1, created)
           | (Inr u, w1) \<Rightarrow> (None, w1, created @ [label]))
        else (None, w, created))"

text \<open>One iteration of the loop over \<^verbatim>\<open>system.components\<close>; an exception leaves the loop.\<close>

definition create_component ::
  "string \<Rightarrow> path \<Rightarrow> SystemComponent \<Rightarrow> world \<times> string list \<Rightarrow>
   error option \<times> world \<times> string list" where
  "create_component systemName projectRoot component s =
     (case s of (w, created) \<Rightarrow>
      let componentDir = join projectRoot (name component);
          cdmlPath = join componentDir (name component @ ''.cdml'');
          claudivDir = join componentDir ''.claudiv'';
          contextPath = join claudivDir ''context.cdml''
      in case create_dir component projectRoot w of
           (Some e, w1) \<Rightarrow> (Some e, w1, created)
         | (None, w1) \<Rightarrow>
             (case write_if_absent cdmlPath (generateComponentSkeleton component systemName)
                     (name component @ ''/'' @ name component @ ''.cdml'') (w1, created) of
                (Some e, s2) \<Rightarrow> (Some e, s2)
              | (None, w2, created2) \<Rightarrow>
                  (case ensure_dir claudivDir w2 of
                     (Some e, w3) \<Rightarrow> (Some e, w3, created2)
                   | (None, w3) \<Rightarrow>
                       write_if_absent contextPath (generateComponentContext component systemName)
                         (name component @ ''/.claudiv/context.cdml'') (w3, created2))))"

fun create_components ::
  "string \<Rightarrow> path \<Rightarrow> SystemComponent list \<Rightarrow> world \<times> string list \<Rightarrow>
   error option \<times> world \<times> string list" where
  "create_components systemName projectRoot [] s = (None, s)"
| "create_components systemName projectRoot (c # cs) s =
     (case create_component systemName projectRoot c s of
        (Some e, s1) \<Rightarrow> (Some e, s1)
      | (None, s1) \<Rightarrow> create_components systemName projectRoot cs s1)"

definition createSystemComponents ::
  "SystemProject \<Rightarrow> path \<Rightarrow> world \<Rightarrow> (error + string list) \<times> world" where
  "createSystemComponents system projectRoot w =
     (case create_components (system_name system) projectRoot (components system) (w, []) of
        (Some e, w1, created) \<Rightarrow> (Inl e, w1)
      | (None, w1, created) \<Rightarrow>
          (case updateProjectManifest system projectRoot w1 of
             (Inl e, w2) \<Rightarrow> (Inl e, w2)
           | (Inr u, w2) \<Rightarrow> (Inr (created @ [''claudiv.project.cdml (updated)'']), w2)))"


text \<open>The paths the loop body tests with \<^verbatim>\<open>existsSync\<close> for one component.\<close>

definition component_paths :: "path \<Rightarrow> SystemComponent \<Rightarrow> path list" where
  "component_paths projectRoot component =
     (let componentDir = join projectRoot (name component);
          claudivDir = join componentDir ''.claudiv''
      in [componentDir, join componentDir (name component @ ''.cdml''), claudivDir,
          join claudivDir ''context.cdml''])"


section \<open>The engine: one file change in watch mode\<close>



















section \<open>Concrete scenarios\<close>

definition op_write :: "path \<Rightarrow> string \<Rightarrow> TransactionOp" where
  "op_write f c = \<lparr>type = Write, op_file = f, content = Some c, previousContent = None\<rparr>"

definition op_delete :: "path \<Rightarrow> TransactionOp" where
  "op_delete f = \<lparr>type = Delete, op_file = f, content = None, previousContent = None\<rparr>"

definition no_ops :: store where
  "no_ops = (\<lambda>i. op_delete ''unused'')"

definition empty_manifest :: ContextManifest where
  "empty_manifest = \<lparr>forFile = ''app.cdml'', global = \<lparr>refs = [], facts = []\<rparr>, scopes = []\<rparr>"

text \<open>A stand-in for the serialiser: the fact texts and ref files, scope by scope.\<close>

definition toy_serialize :: "ContextManifest \<Rightarrow> string" where
  "toy_serialize m =
     concat (map ref_file (refs (global m))) @ concat (map fact_text (facts (global m))) @
     concat (map (\<lambda>s. path s @ concat (map ref_file (refs s)) @ concat (map fact_text (facts s)))
               (scopes m))"

definition disk_with :: "(path \<rightharpoonup> node) \<Rightarrow> fault list \<Rightarrow> world" where
  "disk_with f fl = \<lparr>fs = f, faults = fl, trace = []\<rparr>"

text \<open>Three ops on a tree holding \<^verbatim>\<open>b.txt\<close>: create \<^verbatim>\<open>a.txt\<close>, overwrite \<^verbatim>\<open>b.txt\<close>, delete
  \<^verbatim>\<open>b.txt\<close>; the sixth call, the persist, fails and every rollback call succeeds.\<close>

definition three_ops :: store where
  "three_ops = no_ops(0 := op_write ''a.txt'' ''x'', 1 := op_write ''b.txt'' ''new'', 2 := op_delete ''b.txt'')"

definition persist_fails :: outcome where
  "persist_fails =
     executeTransaction toy_serialize [0, 1, 2] empty_manifest ''.claudiv/context.cdml'' [] [] ''app''
       (disk_with [''b.txt'' \<mapsto> File ''old''] [Pass, Pass, Pass, Pass, Pass, Refuse]) three_ops"





text \<open>The same op object twice in \<^verbatim>\<open>ops\<close>; the persist fails and no rollback call does.\<close>

definition one_write :: store where
  "one_write = no_ops(0 := op_write ''a.txt'' ''x'')"



text \<open>A delete of a missing file between two writes, on an empty tree, no call failing.\<close>

definition skip_store :: store where
  "skip_store = no_ops(0 := op_write ''a.txt'' ''x'', 1 := op_delete ''missing.txt'',
                       2 := op_write ''b.txt'' ''y'')"

text \<open>A manifest with one scope, a ref in two versions, and a fact.\<close>

definition app_manifest :: ContextManifest where
  "app_manifest =
     \<lparr>forFile = ''app.cdml'', global = \<lparr>refs = [], facts = []\<rparr>,
      scopes = [\<lparr>refs = [], facts = [], path = ''app''\<rparr>]\<rparr>"

definition ref_v1 :: ContextRef where
  "ref_v1 = \<lparr>ref_file = ''src/app.ts'', ref_meta = ''v1''\<rparr>"

definition ref_v2 :: ContextRef where
  "ref_v2 = \<lparr>ref_file = ''src/app.ts'', ref_meta = ''v2''\<rparr>"

definition fact_rest :: ContextFact where
  "fact_rest = \<lparr>fact_text = ''uses REST'', fact_source = ''plan:2026-01-01''\<rparr>"

definition metadata_only :: outcome where
  "metadata_only =
     executeTransaction toy_serialize [] app_manifest ''.claudiv/context.cdml'' [ref_v1] [fact_rest]
       ''app'' (disk_with Map.empty []) no_ops"

definition unknown_scope :: outcome where
  "unknown_scope =
     executeTransaction toy_serialize [0] app_manifest ''.claudiv/context.cdml'' [ref_v1] [fact_rest]
       ''other'' (disk_with Map.empty []) one_write"


text \<open>The three ops again; the persist fails, and of the three rollback calls the second
  one does.\<close>

definition middle_rollback_fails :: outcome where
  "middle_rollback_fails =
     executeTransaction toy_serialize [0, 1, 2] empty_manifest ''.claudiv/context.cdml'' [] [] ''app''
       (disk_with [''b.txt'' \<mapsto> File ''old'']
          [Pass, Pass, Pass, Pass, Pass, Refuse, Pass, Refuse, Pass]) three_ops"




text \<open>The same fact committed twice to the scope \<^verbatim>\<open>app\<close>.\<close>

definition same_fact_twice :: "ContextManifest \<times> world \<times> store" where
  "same_fact_twice =
     run_transactions toy_serialize
       [([], ''.claudiv/context.cdml'', [], [fact_rest], ''app''),
        ([], ''.claudiv/context.cdml'', [], [fact_rest], ''app'')]
       (app_manifest, disk_with Map.empty [], no_ops)"


text \<open>Two commits naming a ref for \<^verbatim>\<open>src/app.ts\<close> in the scope \<^verbatim>\<open>app\<close>, which already holds a
  ref for another file; the second commit also names a ref for a third file.\<close>

definition util_ref :: ContextRef where
  "util_ref = \<lparr>ref_file = ''src/util.ts'', ref_meta = ''u1''\<rparr>"

definition page_ref :: ContextRef where
  "page_ref = \<lparr>ref_file = ''src/page.ts'', ref_meta = ''p1''\<rparr>"

definition refs_manifest :: ContextManifest where
  "refs_manifest =
     \<lparr>forFile = ''app.cdml'', global = \<lparr>refs = [], facts = []\<rparr>,
      scopes = [\<lparr>refs = [util_ref], facts = [], path = ''app''\<rparr>]\<rparr>"

definition first_commit :: outcome where
  "first_commit =
     executeTransaction toy_serialize [] refs_manifest ''.claudiv/context.cdml'' [ref_v1] [] ''app''
       (disk_with Map.empty []) no_ops"

definition second_commit :: outcome where
  "second_commit =
     executeTransaction toy_serialize [] (manifest first_commit) ''.claudiv/context.cdml''
       [ref_v2, page_ref] [] ''app'' (disk (state first_commit)) no_ops"


text \<open>The system document of the spec's scenario: \<^verbatim>\<open>web\<close> and \<^verbatim>\<open>api\<close>, the second a
  submodule, scaffolded in the directory \<^verbatim>\<open>proj\<close> of an empty tree with no call failing.\<close>

definition shop :: SystemProject where
  "shop =
     \<lparr>system_name = ''shop'',
      components =
        [\<lparr>name = ''web'', component_type = ''webapp'', submodule = False, description = Some ''A''\<rparr>,
         \<lparr>name = ''api'', component_type = ''rest'', submodule = True, description = Some ''B''\<rparr>],
      manifestPath = ''''\<rparr>"

definition first_run :: "(error + string list) \<times> world" where
  "first_run = createSystemComponents shop ''proj'' (disk_with Map.empty [])"

definition second_run :: "(error + string list) \<times> world" where
  "second_run = createSystemComponents shop ''proj'' (snd first_run)"

text \<open>A second run whose write of the project manifest fails before any byte is written.\<close>

definition second_run_torn :: "(error + string list) \<times> world" where
  "second_run_torn = createSystemComponents shop ''proj'' ((snd first_run)\<lparr>faults := [Tear 0]\<rparr>)"















text \<open>A project tree holding the manifest file, and the manifest it was written from: one
  scope with two refs and a fact. The transactions on it name two refs, one of them for a
  file the scope has a ref for, and one fact.\<close>

definition stocked_manifest :: ContextManifest where
  "stocked_manifest =
     \<lparr>forFile = ''app.cdml'', global = \<lparr>refs = [], facts = []\<rparr>,
      scopes = [\<lparr>refs = [util_ref, ref_v1], facts = [fact_rest], path = ''app''\<rparr>]\<rparr>"

definition project_tree :: "path \<rightharpoonup> node" where
  "project_tree =
     [''.claudiv'' \<mapsto> Dir,
      ''.claudiv/context.cdml'' \<mapsto> File ''appsrc/util.tssrc/app.tsuses REST'']"

definition fact_cache :: ContextFact where
  "fact_cache = \<lparr>fact_text = ''caches GET'', fact_source = ''plan:2026-01-02''\<rparr>"




text \<open>No ops, on the project tree, no call failing.\<close>

definition metadata_commit :: outcome where
  "metadata_commit =
     executeTransaction toy_serialize [] stocked_manifest ''.claudiv/context.cdml''
       [ref_v2, page_ref] [fact_cache] ''app'' (disk_with project_tree []) no_ops"

section \<open>Properties of the file system calls\<close>

lemmas io_defs = existsSync_def injected_def consume_def raise_io_def done_io_def readFile_def
  writeFile_def unlink_def mkdir_def torn_def utf8_decode_def replacement_def

lemmas tx_defs = capture_def apply_op_def try_block_def undo_def executeTransaction_def
  update_manifest_def find_scope_def step2_def step3_def upsert_ref_def Let_def

lemmas scenario_defs = op_write_def op_delete_def no_ops_def empty_manifest_def
  toy_serialize_def disk_with_def

lemma writeFile_Inr:
  "writeFile p c w = (Inr u, w1) \<Longrightarrow>
     fs w1 = (fs w)(p \<mapsto> File c) \<and> trace w1 = trace w @ [(WriteFile p c, True)] \<and>
     faults w1 = tl (faults w) \<and> \<not> injected w \<and> fs w p \<noteq> Some Dir"
  by (auto simp: writeFile_def raise_io_def done_io_def consume_def split: if_splits)

lemma torn_cases:
  "(\<forall>q. q \<noteq> p \<longrightarrow> torn p c w q = fs w q) \<and>
   (torn p c w p = fs w p \<or> (\<exists>n. torn p c w p = Some (File (take n c))))"
  by (auto simp: torn_def split: list.splits fault.splits)

lemma writeFile_Inl:
  "writeFile p c w = (Inl e, w1) \<Longrightarrow>
     e = FsError (WriteFile p c) \<and> fs w1 = torn p c w \<and>
     trace w1 = trace w @ [(WriteFile p c, False)] \<and> faults w1 = tl (faults w)"
  by (auto simp: writeFile_def raise_io_def done_io_def consume_def split: if_splits)


lemma unlink_Inr:
  "unlink p w = (Inr u, w1) \<Longrightarrow>
     fs w1 = (fs w)(p := None) \<and> trace w1 = trace w @ [(Unlink p, True)] \<and>
     faults w1 = tl (faults w)"
  by (auto simp: unlink_def raise_io_def done_io_def consume_def
      split: if_splits option.splits node.splits)

lemma unlink_Inl:
  "unlink p w = (Inl e, w1) \<Longrightarrow>
     e = FsError (Unlink p) \<and> fs w1 = fs w \<and>
     trace w1 = trace w @ [(Unlink p, False)] \<and> faults w1 = tl (faults w)"
  by (auto simp: unlink_def raise_io_def done_io_def consume_def
      split: if_splits option.splits node.splits)

lemma readFile_Inr:
  "readFile p w = (Inr c, w1) \<Longrightarrow>
     (\<exists>bytes. fs w p = Some (File bytes) \<and> c = utf8_decode bytes) \<and> fs w1 = fs w \<and>
     trace w1 = trace w @ [(ReadFile p, True)] \<and> faults w1 = tl (faults w)"
  by (auto simp: readFile_def raise_io_def done_io_def consume_def
      split: if_splits option.splits node.splits)

lemma readFile_Inl:
  "readFile p w = (Inl e, w1) \<Longrightarrow>
     e = FsError (ReadFile p) \<and> fs w1 = fs w \<and>
     trace w1 = trace w @ [(ReadFile p, False)] \<and> faults w1 = tl (faults w)"
  by (auto simp: readFile_def raise_io_def done_io_def consume_def
      split: if_splits option.splits node.splits)

section \<open>Properties of the transactional updater\<close>

subsection \<open>One op, one rollback step\<close>

lemma capture_None:
  "capture i s = (None, s1) \<Longrightarrow>
     \<exists>bytes. fs (disk s) (op_file (objs s i)) = Some (File bytes) \<and>
         objs s1 = (objs s)(i := (objs s i)\<lparr>previousContent := Some (utf8_decode bytes)\<rparr>) \<and>
         fs (disk s1) = fs (disk s) \<and> completed s1 = completed s \<and>
         trace (disk s1) = trace (disk s) @ [(ReadFile (op_file (objs s i)), True)]"
  by (auto simp: capture_def split: prod.splits sum.splits dest!: readFile_Inr)

lemma capture_Some:
  "capture i s = (Some e, s1) \<Longrightarrow>
     objs s1 = objs s \<and> fs (disk s1) = fs (disk s) \<and> completed s1 = completed s \<and>
     trace (disk s1) = trace (disk s) @ [(ReadFile (op_file (objs s i)), False)]"
  by (auto simp: capture_def split: prod.splits sum.splits dest!: readFile_Inl)





lemma apply_op_raises:
  "apply_op i s = (Some e, s1) \<Longrightarrow> completed s1 = completed s"
  by (auto simp: apply_op_def Let_def
      split: op_type.splits option.splits if_splits prod.splits sum.splits
      dest!: capture_None capture_Some)

lemma apply_op_completed:
  "apply_op i s = (r, s1) \<Longrightarrow> completed s1 = completed s \<or> completed s1 = completed s @ [i]"
  by (auto simp: apply_op_def Let_def
      split: op_type.splits option.splits if_splits prod.splits sum.splits
      dest!: capture_None capture_Some)



subsection \<open>Rollback restores a touched file\<close>









subsection \<open>The manifest update\<close>

lemma findIndex_Some:
  "findIndex P xs = Some k \<Longrightarrow> k < length xs \<and> P (xs ! k) \<and> (\<forall>j<k. \<not> P (xs ! j))"
proof (induction xs arbitrary: k)
  case Nil
  then show ?case by simp
next
  case (Cons x xs)
  show ?case
  proof (cases "P x")
    case True
    with Cons.prems show ?thesis by simp
  next
    case False
    with Cons.prems obtain k' where k: "findIndex P xs = Some k'" "k = Suc k'" by auto
    from Cons.IH [OF k(1)] k(2) False show ?thesis by (auto simp: less_Suc_eq_0_disj)
  qed
qed

lemma findIndex_None: "(findIndex P xs = None) = (\<forall>x\<in>set xs. \<not> P x)"
  by (induction xs) auto

lemma update_manifest_found:
  "find_scope m sp = Some k \<Longrightarrow>
     update_manifest m nr nf sp =
       m\<lparr>scopes := (scopes m)[k := (scopes m ! k)\<lparr>refs := update_refs (refs (scopes m ! k)) nr,
                                                  facts := facts (scopes m ! k) @ nf\<rparr>]\<rparr>"
  by (auto simp: update_manifest_def step2_def step3_def find_scope_def Let_def
      dest!: findIndex_Some)

lemma update_manifest_missing:
  "find_scope m sp = None \<Longrightarrow>
     update_manifest m nr nf sp = m\<lparr>global := (global m)\<lparr>facts := facts (global m) @ nf\<rparr>\<rparr>"
  by (auto simp: update_manifest_def step2_def step3_def Let_def)

lemma manifest_of_outcome:
  "manifest (executeTransaction serialize ops m ctx nr nf sp w h) =
     (if fst (apply_ops ops \<lparr>disk = w, objs = h, completed = []\<rparr>) = None
      then update_manifest m nr nf sp else m)"
  by (auto simp: executeTransaction_def try_block_def Let_def
      split: prod.splits option.splits sum.splits)

lemma writeFile_eq:
  "writeFile p c w =
     (if can_write p w
      then (Inr (), w\<lparr>fs := (fs w)(p \<mapsto> File c), faults := tl (faults w),
                     trace := trace w @ [(WriteFile p c, True)]\<rparr>)
      else (Inl (FsError (WriteFile p c)),
            w\<lparr>fs := torn p c w, faults := tl (faults w),
              trace := trace w @ [(WriteFile p c, False)]\<rparr>))"
  by (simp add: writeFile_def can_write_def raise_io_def done_io_def consume_def)

lemma apply_ops_append:
  "apply_ops (xs @ ys) s =
     (case apply_ops xs s of (Some e, s1) \<Rightarrow> (Some e, s1) | (None, s1) \<Rightarrow> apply_ops ys s1)"
  by (induction xs arbitrary: s) (auto split: prod.splits option.splits)

lemma apply_op_skip_delete:
  "type (objs s i) = Delete \<Longrightarrow> \<not> existsSync (op_file (objs s i)) (disk s) \<Longrightarrow>
     apply_op i s = (None, s)"
  by (simp add: apply_op_def)

text \<open>
  C10. When the loop reaches a delete op whose file does not exist (\<open>s1\<close> is the state
  after the ops before it, all applied), the iteration changes nothing: no error, no
  call on the disk, no \<^verbatim>\<open>previousContent\<close> assigned, nothing pushed on \<^verbatim>\<open>completed\<close>. The
  transaction is, in its whole outcome, the transaction without that op: it goes on
  with the remaining ops and commits or rolls back as that one does.
\<close>

theorem delete_of_missing_file_skipped:
  assumes "apply_ops pre \<lparr>disk = w, objs = h, completed = []\<rparr> = (None, s1)"
    and "type (objs s1 i) = Delete"
    and "\<not> existsSync (op_file (objs s1 i)) (disk s1)"
  shows "apply_op i s1 = (None, s1) \<and>
         executeTransaction serialize (pre @ i # post) m ctx newRefs newFacts scopePath w h =
         executeTransaction serialize (pre @ post) m ctx newRefs newFacts scopePath w h"
proof -
  have a: "apply_op i s1 = (None, s1)" using assms(2,3) by (rule apply_op_skip_delete)
  have "apply_ops (pre @ i # post) \<lparr>disk = w, objs = h, completed = []\<rparr> =
        apply_ops (pre @ post) \<lparr>disk = w, objs = h, completed = []\<rparr>"
    using assms(1) a by (simp add: apply_ops_append)
  then show ?thesis using a by (simp add: executeTransaction_def try_block_def)
qed

theorem delete_of_missing_file_skipped_witness:
  "executeTransaction toy_serialize ([0] @ 1 # [2]) empty_manifest ''.claudiv/context.cdml'' [] []
     ''app'' (disk_with Map.empty []) skip_store =
   executeTransaction toy_serialize ([0] @ [2]) empty_manifest ''.claudiv/context.cdml'' [] []
     ''app'' (disk_with Map.empty []) skip_store \<and>
   raised (executeTransaction toy_serialize [0, 1, 2] empty_manifest ''.claudiv/context.cdml'' [] []
     ''app'' (disk_with Map.empty []) skip_store) = None \<and>
   completed (state (executeTransaction toy_serialize [0, 1, 2] empty_manifest
     ''.claudiv/context.cdml'' [] [] ''app'' (disk_with Map.empty []) skip_store)) = [0, 2]"
proof -
  let ?s0 = "\<lparr>disk = disk_with Map.empty [], objs = skip_store, completed = []\<rparr>"
  define s1 where "s1 = snd (apply_ops [0] ?s0)"
  have "fst (apply_ops [0] ?s0) = None"
    by (simp add: skip_store_def io_defs tx_defs scenario_defs)
  then have a: "apply_ops [0] ?s0 = (None, s1)" by (simp add: s1_def prod_eq_iff)
  have b: "type (objs s1 1) = Delete"
    by (simp add: s1_def skip_store_def io_defs tx_defs scenario_defs)
  have c: "\<not> existsSync (op_file (objs s1 1)) (disk s1)"
    by (simp add: s1_def skip_store_def io_defs tx_defs scenario_defs)
  have d: "raised (executeTransaction toy_serialize [0, 1, 2] empty_manifest
      ''.claudiv/context.cdml'' [] [] ''app'' (disk_with Map.empty []) skip_store) = None"
    and e: "completed (state (executeTransaction toy_serialize [0, 1, 2] empty_manifest
      ''.claudiv/context.cdml'' [] [] ''app'' (disk_with Map.empty []) skip_store)) = [0, 2]"
    by (simp_all add: skip_store_def io_defs tx_defs scenario_defs)
  from delete_of_missing_file_skipped [OF a b c] d e show ?thesis by simp
qed

text \<open>
  C9. When no scope of the manifest has the path \<^verbatim>\<open>scopePath\<close>, the refs of \<^verbatim>\<open>newRefs\<close> go
  nowhere and raise nothing: the whole outcome is that of the same call with no new
  refs, every scope is as it was and so are the refs of the global scope. When the file
  ops have all been applied (\<open>s1\<close> is the state after them), the facts of \<^verbatim>\<open>newFacts\<close> are
  appended to the global scope, and the transaction commits exactly when the write of
  the manifest file does not fail.
\<close>

theorem refs_dropped_when_scope_missing:
  assumes "\<forall>s\<in>set (scopes m). path s \<noteq> scopePath"
    and "r = executeTransaction serialize ops m ctx newRefs newFacts scopePath w h"
  shows "r = executeTransaction serialize ops m ctx [] newFacts scopePath w h \<and>
         scopes (manifest r) = scopes m \<and> refs (global (manifest r)) = refs (global m) \<and>
         (\<forall>s1. apply_ops ops \<lparr>disk = w, objs = h, completed = []\<rparr> = (None, s1) \<longrightarrow>
               manifest r = m\<lparr>global := (global m)\<lparr>facts := facts (global m) @ newFacts\<rparr>\<rparr> \<and>
               (raised r = None) = can_write ctx (disk s1))"
proof -
  from assms(1) have f: "find_scope m scopePath = None"
    by (simp add: find_scope_def findIndex_None)
  then have u: "update_manifest m newRefs newFacts scopePath =
             m\<lparr>global := (global m)\<lparr>facts := facts (global m) @ newFacts\<rparr>\<rparr>"
    and u0: "update_manifest m [] newFacts scopePath =
             m\<lparr>global := (global m)\<lparr>facts := facts (global m) @ newFacts\<rparr>\<rparr>"
    by (simp_all add: update_manifest_missing)
  have "try_block serialize ops m ctx newRefs newFacts scopePath s =
        try_block serialize ops m ctx [] newFacts scopePath s" for s
    by (simp add: try_block_def u u0 split: prod.splits option.splits)
  then have 1: "r = executeTransaction serialize ops m ctx [] newFacts scopePath w h"
    using assms(2) by (simp add: executeTransaction_def)
  have 2: "scopes (manifest r) = scopes m \<and> refs (global (manifest r)) = refs (global m)"
    using assms(2) u by (simp add: manifest_of_outcome)
  have 3: "manifest r = m\<lparr>global := (global m)\<lparr>facts := facts (global m) @ newFacts\<rparr>\<rparr> \<and>
           (raised r = None) = can_write ctx (disk s1)"
    if "apply_ops ops \<lparr>disk = w, objs = h, completed = []\<rparr> = (None, s1)" for s1
    using assms(2) u that
    by (cases "can_write ctx (disk s1)")
       (simp_all add: executeTransaction_def try_block_def Let_def writeFile_eq
          split: prod.splits)
  from 1 2 3 show ?thesis by blast
qed

theorem refs_dropped_when_scope_missing_witness:
  "raised unknown_scope = None \<and>
   scopes (manifest unknown_scope) = scopes app_manifest \<and>
   refs (global (manifest unknown_scope)) = [] \<and>
   facts (global (manifest unknown_scope)) = [fact_rest] \<and>
   unknown_scope =
     executeTransaction toy_serialize [0] app_manifest ''.claudiv/context.cdml'' [] [fact_rest]
       ''other'' (disk_with Map.empty []) one_write"
proof -
  have a: "\<forall>s\<in>set (scopes app_manifest). path s \<noteq> ''other''"
    by (simp add: app_manifest_def)
  have b: "raised unknown_scope = None"
    and c: "facts (global (manifest unknown_scope)) = [fact_rest]"
    by (simp_all add: unknown_scope_def app_manifest_def one_write_def io_defs tx_defs
        scenario_defs)
  from refs_dropped_when_scope_missing [OF a unknown_scope_def] b c
  show ?thesis by (simp add: app_manifest_def)
qed


subsection \<open>Facts, rollback order, the manifest file\<close>


lemma find_scope_bound: "find_scope m sp = Some k \<Longrightarrow> k < length (scopes m)"
  by (auto simp: find_scope_def dest: findIndex_Some)

lemma fact_lists_update_manifest:
  "fact_lists (update_manifest m nr nf sp) =
     (fact_lists m)[target_index m sp := fact_lists m ! target_index m sp @ nf]"
proof (cases "find_scope m sp")
  case None
  then show ?thesis
    by (simp add: update_manifest_missing fact_lists_def target_index_def)
next
  case (Some k)
  with find_scope_bound have "k < length (scopes m)" by blast
  with Some show ?thesis
    by (simp add: update_manifest_found fact_lists_def target_index_def map_update)
qed

lemma list_all2_prefix_refl: "list_all2 prefix xs xs"
  by (simp add: list_all2_refl)

lemma list_all2_prefix_update:
  "list_all2 prefix xs (xs[k := xs ! k @ ys])"
proof (cases "k < length xs")
  case True
  then show ?thesis by (simp add: list_all2_conv_all_nth nth_list_update)
next
  case False
  then show ?thesis by (simp add: list_all2_conv_all_nth)
qed

lemma fact_lists_outcome:
  "list_all2 prefix (fact_lists m) (fact_lists (manifest (executeTransaction serialize ops m ctx nr nf sp w h)))"
  by (simp add: manifest_of_outcome fact_lists_update_manifest list_all2_prefix_update
      list_all2_prefix_refl)

lemma list_all2_prefix_trans:
  "list_all2 prefix xs ys \<Longrightarrow> list_all2 prefix ys zs \<Longrightarrow> list_all2 prefix xs zs"
  by (rule list_all2_trans [of prefix prefix prefix]) auto

lemma fact_lists_run:
  "list_all2 prefix (fact_lists m) (fact_lists (fst (run_transactions serialize reqs (m, w, h))))"
proof (induction reqs arbitrary: m w h)
  case Nil
  then show ?case by (simp add: list_all2_prefix_refl)
next
  case (Cons q reqs)
  obtain ops ctx nr nf sp where q: "q = (ops, ctx, nr, nf, sp)" by (cases q) auto
  let ?r = "executeTransaction serialize ops m ctx nr nf sp w h"
  have "list_all2 prefix (fact_lists m) (fact_lists (manifest ?r))" by (rule fact_lists_outcome)
  moreover have "list_all2 prefix (fact_lists (manifest ?r))
      (fact_lists (fst (run_transactions serialize reqs (manifest ?r, disk (state ?r), objs (state ?r)))))"
    by (rule Cons.IH)
  ultimately show ?case unfolding q by (simp add: Let_def) (rule list_all2_prefix_trans)
qed

text \<open>
  C5. Whatever a transaction's outcome, every fact list of the manifest object (the global
  scope's and each scope's, \<open>fact_lists\<close>) is afterwards an extension of what it was: no
  list gets shorter, no entry is changed or removed. A committed transaction leaves
  every fact list as it was but the target's, the first scope with the path
  \<^verbatim>\<open>scopePath\<close> or else the global scope, which is the old list followed by all of
  \<^verbatim>\<open>newFacts\<close>, duplicates included. The same holds from the start to the end of every
  sequence of transactions run on the manifest.
\<close>

theorem facts_append_only:
  assumes "r = executeTransaction serialize ops m ctx newRefs newFacts scopePath w h"
  shows "(raised r = None \<longrightarrow>
            fact_lists (manifest r) =
              (fact_lists m)[target_index m scopePath :=
                               fact_lists m ! target_index m scopePath @ newFacts]) \<and>
         list_all2 prefix (fact_lists m) (fact_lists (manifest r)) \<and>
         list_all2 prefix (fact_lists m)
           (fact_lists (fst (run_transactions serialize reqs (m, w, h))))"
proof -
  have "raised r = None \<Longrightarrow> fst (apply_ops ops \<lparr>disk = w, objs = h, completed = []\<rparr>) = None"
    using assms
    by (auto simp: executeTransaction_def try_block_def Let_def
        split: prod.splits option.splits sum.splits)
  then have "raised r = None \<longrightarrow>
            fact_lists (manifest r) =
              (fact_lists m)[target_index m scopePath :=
                               fact_lists m ! target_index m scopePath @ newFacts]"
    using assms by (simp add: manifest_of_outcome fact_lists_update_manifest)
  moreover have "list_all2 prefix (fact_lists m) (fact_lists (manifest r))"
    unfolding assms by (rule fact_lists_outcome)
  moreover have "list_all2 prefix (fact_lists m)
           (fact_lists (fst (run_transactions serialize reqs (m, w, h))))"
    by (rule fact_lists_run)
  ultimately show ?thesis by blast
qed


lemma rollback_log: "rollback h ops w = (w2, lg) \<Longrightarrow> map fst lg = ops"
proof (induction ops arbitrary: w w2 lg)
  case Nil
  then show ?case by simp
next
  case (Cons i ops)
  obtain r w1 where u: "undo (h i) w = (r, w1)" by (cases "undo (h i) w")
  obtain w3 lg3 where rb: "rollback h ops w1 = (w3, lg3)" by (cases "rollback h ops w1")
  from Cons.prems u rb obtain x where "lg = (i, x) # lg3" by (cases r) auto
  with Cons.IH [OF rb] show ?case by simp
qed

lemma undo_trace:
  "undo op w = (r, w1) \<Longrightarrow>
     \<exists>T. trace w1 = trace w @ T \<and>
         filter is_write (map fst T) =
           (case previousContent op of Some prev \<Rightarrow> [WriteFile (op_file op) prev] | None \<Rightarrow> []) \<and>
         (\<forall>x\<in>set T. call_path (fst x) = op_file op)"
  by (cases r) (auto simp: undo_def split: op_type.splits option.splits if_splits
      dest!: writeFile_Inr unlink_Inr writeFile_Inl unlink_Inl)

lemma undo_trace_frame:
  "undo op w = (r, w1) \<Longrightarrow>
     \<exists>T. trace w1 = trace w @ T \<and> (\<forall>x\<in>set T. call_path (fst x) = op_file op)"
  using undo_trace by blast

lemma rollback_trace:
  "rollback h ops w = (w2, lg) \<Longrightarrow>
     \<exists>T. trace w2 = trace w @ T \<and> filter is_write (map fst T) = restore_calls h ops \<and>
         (\<forall>x\<in>set T. call_path (fst x) \<in> op_file ` h ` set ops)"
proof (induction ops arbitrary: w w2 lg)
  case Nil
  then show ?case by (simp add: restore_calls_def)
next
  case (Cons i ops)
  obtain r w1 where u: "undo (h i) w = (r, w1)" by (cases "undo (h i) w")
  obtain w3 lg3 where rb: "rollback h ops w1 = (w3, lg3)" by (cases "rollback h ops w1")
  from Cons.prems u rb have w: "w2 = w3" by (cases r) auto
  from undo_trace [OF u] obtain T1 where
    t1: "trace w1 = trace w @ T1" and
    f1: "filter is_write (map fst T1) =
           (case previousContent (h i) of Some prev \<Rightarrow> [WriteFile (op_file (h i)) prev] | None \<Rightarrow> [])" and
    p1: "\<forall>x\<in>set T1. call_path (fst x) = op_file (h i)"
    by blast
  from Cons.IH [OF rb] obtain T2 where
    t2: "trace w3 = trace w1 @ T2" and f2: "filter is_write (map fst T2) = restore_calls h ops" and
    p2: "\<forall>x\<in>set T2. call_path (fst x) \<in> op_file ` h ` set ops"
    by blast
  have "trace w2 = trace w @ (T1 @ T2)" using w t1 t2 by simp
  moreover have "filter is_write (map fst (T1 @ T2)) = restore_calls h (i # ops)"
    using f1 f2 by (simp add: restore_calls_def)
  moreover have "\<forall>x\<in>set (T1 @ T2). call_path (fst x) \<in> op_file ` h ` set (i # ops)"
    using p1 p2 by auto
  ultimately show ?case by blast
qed



lemma apply_ops_subseq:
  "apply_ops ops s = (r, s1) \<Longrightarrow> \<exists>new. completed s1 = completed s @ new \<and> subseq new ops"
proof (induction ops arbitrary: s)
  case Nil
  then show ?case by simp
next
  case (Cons i ops)
  obtain r0 s0 where a: "apply_op i s = (r0, s0)" by (cases "apply_op i s")
  show ?case
  proof (cases r0)
    case (Some e)
    with a Cons.prems have "s1 = s0" by simp
    with apply_op_raises a Some show ?thesis by auto
  next
    case None
    with a Cons.prems have rest: "apply_ops ops s0 = (r, s1)" by simp
    from Cons.IH [OF rest] obtain new where
      n: "completed s1 = completed s0 @ new" "subseq new ops" by blast
    from apply_op_completed [OF a] show ?thesis
    proof
      assume "completed s0 = completed s"
      with n show ?thesis by (intro exI [of _ new]) auto
    next
      assume "completed s0 = completed s @ [i]"
      with n show ?thesis by (intro exI [of _ "i # new"]) auto
    qed
  qed
qed


text \<open>
  C3. When the \<^verbatim>\<open>try\<close> block raises \<open>e\<close>, leaving the state \<open>s1\<close>: the caller gets \<open>e\<close>,
  whatever happens during the rollback; the completed ops are a subsequence of \<^verbatim>\<open>ops\<close>,
  in apply order, and the rollback loop runs once for each of them, in the reverse
  order, whether an earlier iteration caught an error or not; and on the disk, the
  restoring writes issued during the rollback are exactly those of the completed ops
  that captured a previous content, in that reverse order.
\<close>

theorem rollback_reverse_order_and_reraise:
  assumes "try_block serialize ops m ctx newRefs newFacts scopePath
             \<lparr>disk = w, objs = h, completed = []\<rparr> = (Some e, s1, m1)"
    and "r = executeTransaction serialize ops m ctx newRefs newFacts scopePath w h"
  shows "raised r = Some e \<and> subseq (completed s1) ops \<and>
         map fst (rolled r) = rev (completed s1) \<and>
         (\<exists>T. trace (disk (state r)) = trace (disk s1) @ T \<and>
              filter is_write (map fst T) = restore_calls (objs s1) (rev (completed s1)))"
proof -
  obtain w2 lg where rb: "rollback (objs s1) (rev (completed s1)) (disk s1) = (w2, lg)"
    by (cases "rollback (objs s1) (rev (completed s1)) (disk s1)")
  from assms rb have r: "raised r = Some e" "rolled r = lg" "disk (state r) = w2"
    by (simp_all add: executeTransaction_def)
  from rollback_log [OF rb] have lg: "map fst lg = rev (completed s1)" .
  obtain r0 s0 where ap: "apply_ops ops \<lparr>disk = w, objs = h, completed = []\<rparr> = (r0, s0)"
    by (cases "apply_ops ops \<lparr>disk = w, objs = h, completed = []\<rparr>")
  with assms(1) have "completed s1 = completed s0"
    by (auto simp: try_block_def Let_def split: option.splits prod.splits sum.splits)
  with apply_ops_subseq [OF ap] have sub: "subseq (completed s1) ops" by auto
  from rollback_trace [OF rb] r lg sub show ?thesis by auto
qed





theorem rollback_reverse_order_and_reraise_witness:
  "raised middle_rollback_fails = Some (FsError (WriteFile ''.claudiv/context.cdml'' '''')) \<and>
   completed (state middle_rollback_fails) = [0, 1, 2] \<and>
   rolled middle_rollback_fails =
     [(2, None), (1, Some (FsError (WriteFile ''b.txt'' ''old''))), (0, None)] \<and>
   fs (disk (state middle_rollback_fails)) ''a.txt'' = None \<and>
   fs (disk (state middle_rollback_fails)) ''b.txt'' = Some (File ''new'')"
proof -
  let ?tb = "try_block toy_serialize [0, 1, 2] empty_manifest ''.claudiv/context.cdml'' [] [] ''app''
       \<lparr>disk = disk_with [''b.txt'' \<mapsto> File ''old'']
          [Pass, Pass, Pass, Pass, Pass, Refuse, Pass, Refuse, Pass],
        objs = three_ops, completed = []\<rparr>"
  have "fst ?tb = Some (FsError (WriteFile ''.claudiv/context.cdml'' ''''))"
    by (simp add: three_ops_def io_defs tx_defs scenario_defs)
  then have tb: "?tb = (Some (FsError (WriteFile ''.claudiv/context.cdml'' '''')),
                        fst (snd ?tb), snd (snd ?tb))"
    by (simp add: prod_eq_iff)
  have a: "completed (state middle_rollback_fails) = [0, 1, 2]"
    and b: "rolled middle_rollback_fails =
       [(2, None), (1, Some (FsError (WriteFile ''b.txt'' ''old''))), (0, None)]"
    and c: "fs (disk (state middle_rollback_fails)) ''a.txt'' = None"
    and d: "fs (disk (state middle_rollback_fails)) ''b.txt'' = Some (File ''new'')"
    by (simp_all add: middle_rollback_fails_def three_ops_def io_defs tx_defs scenario_defs)
  from rollback_reverse_order_and_reraise [OF tb middle_rollback_fails_def] a b c d
  show ?thesis by simp
qed

theorem facts_append_only_witness:
  "raised metadata_only = None \<and>
   fact_lists app_manifest = [[], []] \<and>
   fact_lists (manifest metadata_only) = [[], [fact_rest]] \<and>
   fact_lists (fst same_fact_twice) = [[], [fact_rest, fact_rest]]"
proof -
  have a: "raised metadata_only = None"
    by (simp add: metadata_only_def app_manifest_def io_defs tx_defs scenario_defs)
  have b: "fact_lists app_manifest = [[], []]" "target_index app_manifest ''app'' = 1"
    by (simp_all add: fact_lists_def app_manifest_def target_index_def find_scope_def)
  have c: "fact_lists (fst same_fact_twice) = [[], [fact_rest, fact_rest]]"
    by (simp add: same_fact_twice_def fact_lists_def app_manifest_def io_defs tx_defs scenario_defs)
  from facts_append_only [OF metadata_only_def] a b c show ?thesis by simp
qed



subsection \<open>Refs of a scope\<close>



lemma findIndex_file_None:
  "(findIndex (\<lambda>x. ref_file x = f) rs = None) = (f \<notin> set (map ref_file rs))"
  by (auto simp: findIndex_None)

lemma latest_file: "latest f xs = Some y \<Longrightarrow> ref_file y = f \<and> y \<in> set xs"
  by (induction xs) (auto split: option.splits if_splits)

lemma latest_None: "(latest f xs = None) = (f \<notin> set (map ref_file xs))"
  by (induction xs) (auto split: option.splits)

lemma replaced_file [simp]: "ref_file (replaced news x) = ref_file x"
  by (auto simp: replaced_def dest: latest_file split: option.splits)

lemma replaced_Cons_other:
  "ref_file x \<noteq> ref_file r \<Longrightarrow> replaced (r # news) x = replaced news x"
  by (simp add: replaced_def split: option.splits)

lemma replaced_Cons_same:
  "ref_file x = ref_file r \<Longrightarrow> replaced (r # news) x = replaced news r"
  by (simp add: replaced_def split: option.splits)

lemma firsts_files: "x \<in> set (firsts news seen) \<Longrightarrow> ref_file x \<notin> seen \<and> x \<in> set news"
  by (induction news seen rule: firsts.induct) (auto split: if_splits)

lemma upsert_present:
  assumes "distinct (map ref_file rs)" and "ref_file r \<in> set (map ref_file rs)"
  shows "map (replaced news) (upsert_ref r rs) = map (replaced (r # news)) rs \<and>
         map ref_file (upsert_ref r rs) = map ref_file rs"
proof -
  from assms(2) obtain k where k: "findIndex (\<lambda>x. ref_file x = ref_file r) rs = Some k"
    by (cases "findIndex (\<lambda>x. ref_file x = ref_file r) rs") (auto simp: findIndex_file_None)
  from findIndex_Some [OF k] have kl: "k < length rs" and kf: "ref_file (rs ! k) = ref_file r"
    by auto
  have u: "upsert_ref r rs = rs[k := r]" using k by (simp add: upsert_ref_def)
  have other: "ref_file (rs ! j) \<noteq> ref_file r" if "j < length rs" "j \<noteq> k" for j
  proof
    assume "ref_file (rs ! j) = ref_file r"
    with kf have e: "map ref_file rs ! j = map ref_file rs ! k" using that kl by simp
    from assms(1) have "\<forall>a<length (map ref_file rs). \<forall>b<length (map ref_file rs).
        a \<noteq> b \<longrightarrow> map ref_file rs ! a \<noteq> map ref_file rs ! b"
      by (simp only: distinct_conv_nth)
    with e that kl show False by (metis length_map)
  qed
  have "map (replaced news) (rs[k := r]) = map (replaced (r # news)) rs"
  proof (rule nth_equalityI)
    show "length (map (replaced news) (rs[k := r])) = length (map (replaced (r # news)) rs)" by simp
  next
    fix j assume "j < length (map (replaced news) (rs[k := r]))"
    then have j: "j < length rs" by simp
    show "map (replaced news) (rs[k := r]) ! j = map (replaced (r # news)) rs ! j"
    proof (cases "j = k")
      case True
      with j kf show ?thesis by (simp add: replaced_Cons_same)
    next
      case False
      with j other show ?thesis by (simp add: replaced_Cons_other)
    qed
  qed
  moreover have "map ref_file (rs[k := r]) = map ref_file rs"
    using kl kf by (simp add: map_update list_update_same_conv)
  ultimately show ?thesis using u by simp
qed

lemma update_refs_shape:
  "distinct (map ref_file rs) \<Longrightarrow>
     update_refs rs news = map (replaced news) (rs @ firsts news (set (map ref_file rs)))"
proof (induction news arbitrary: rs)
  case Nil
  then show ?case by (simp add: replaced_def)
next
  case (Cons r news)
  show ?case
  proof (cases "ref_file r \<in> set (map ref_file rs)")
    case True
    from upsert_present [OF Cons.prems True] have
      m: "map (replaced news) (upsert_ref r rs) = map (replaced (r # news)) rs" and
      f: "map ref_file (upsert_ref r rs) = map ref_file rs" by auto
    from f Cons.prems have d: "distinct (map ref_file (upsert_ref r rs))" by simp
    have "\<forall>x\<in>set (firsts news (set (map ref_file rs))). ref_file x \<noteq> ref_file r"
      using True firsts_files by metis
    then have "map (replaced news) (firsts news (set (map ref_file rs))) =
          map (replaced (r # news)) (firsts news (set (map ref_file rs)))"
      by (simp add: replaced_Cons_other)
    with Cons.IH [OF d] m f True show ?thesis by simp
  next
    case False
    then have "findIndex (\<lambda>x. ref_file x = ref_file r) rs = None"
      using findIndex_file_None by blast
    then have u: "upsert_ref r rs = rs @ [r]"
      by (simp add: upsert_ref_def)
    from False Cons.prems have d: "distinct (map ref_file (upsert_ref r rs))" by (simp add: u)
    have "\<forall>x\<in>set rs. ref_file x \<noteq> ref_file r" using False by (metis image_eqI set_map)
    then have a: "map (replaced news) rs = map (replaced (r # news)) rs"
      by (simp add: replaced_Cons_other)
    have "\<forall>x\<in>set (firsts news (insert (ref_file r) (set (map ref_file rs)))).
            ref_file x \<noteq> ref_file r"
      using firsts_files by (metis insertI1)
    then have b: "map (replaced news) (firsts news (insert (ref_file r) (set (map ref_file rs)))) =
             map (replaced (r # news)) (firsts news (insert (ref_file r) (set (map ref_file rs))))"
      by (simp add: replaced_Cons_other)
    have c: "replaced news r = replaced (r # news) r" by (simp add: replaced_Cons_same)
    from Cons.IH [OF d] False a b c show ?thesis by (simp add: u)
  qed
qed


lemma firsts_set:
  "set (map ref_file (firsts news seen)) = set (map ref_file news) - seen \<and>
   distinct (map ref_file (firsts news seen))"
  by (induction news seen rule: firsts.induct) auto

lemma update_refs_files:
  assumes "distinct (map ref_file rs)"
  shows "distinct (map ref_file (update_refs rs news)) \<and>
         set (map ref_file (update_refs rs news)) = set (map ref_file rs) \<union> set (map ref_file news)"
proof -
  have "map ref_file (update_refs rs news) =
        map ref_file rs @ map ref_file (firsts news (set (map ref_file rs)))"
    by (simp add: update_refs_shape [OF assms])
  with assms firsts_set [of news "set (map ref_file rs)"] show ?thesis by auto
qed

lemma filter_unique:
  "distinct (map g xs) \<Longrightarrow> f \<in> set (map g xs) \<Longrightarrow> \<exists>x. filter (\<lambda>z. g z = f) xs = [x]"
proof (induction xs)
  case Nil
  then show ?case by simp
next
  case (Cons a xs)
  show ?case
  proof (cases "g a = f")
    case True
    from Cons.prems(1) have "g a \<notin> g ` set xs" by simp
    with True have "\<forall>z\<in>set xs. g z \<noteq> f" by (metis imageI)
    then have "filter (\<lambda>z. g z = f) xs = []" by (simp add: filter_empty_conv)
    with True show ?thesis by simp
  next
    case False
    with Cons show ?thesis by auto
  qed
qed

lemma findIndex_update_same:
  "k < length xs \<Longrightarrow> P y = P (xs ! k) \<Longrightarrow> findIndex P (xs[k := y]) = findIndex P xs"
proof (induction xs arbitrary: k)
  case Nil
  then show ?case by simp
next
  case (Cons a xs)
  then show ?case by (cases k) auto
qed

lemma committed_manifest:
  "raised (executeTransaction serialize ops m ctx nr nf sp w h) = None \<Longrightarrow>
   manifest (executeTransaction serialize ops m ctx nr nf sp w h) = update_manifest m nr nf sp"
  by (auto simp: executeTransaction_def try_block_def Let_def
      split: prod.splits option.splits sum.splits)

lemma update_manifest_scope:
  assumes "find_scope m sp = Some k"
  shows "find_scope (update_manifest m nr nf sp) sp = Some k \<and>
         refs (scopes (update_manifest m nr nf sp) ! k) = update_refs (refs (scopes m ! k)) nr"
proof -
  from assms have k: "k < length (scopes m)" by (rule find_scope_bound)
  have "findIndex (\<lambda>s. path s = sp)
          ((scopes m)[k := (scopes m ! k)\<lparr>refs := update_refs (refs (scopes m ! k)) nr,
                                          facts := facts (scopes m ! k) @ nf\<rparr>]) =
        findIndex (\<lambda>s. path s = sp) (scopes m)"
    using k by (intro findIndex_update_same) simp_all
  with assms k show ?thesis
    by (simp add: update_manifest_found find_scope_def)
qed

text \<open>
  C4. In a committed transaction whose scope exists (\<open>k\<close> is its index) and holds at most
  one ref per file, the scope's refs afterwards are the old refs, each at its old
  position and each replaced by the last ref of \<^verbatim>\<open>newRefs\<close> for its file when there is one
  (\<open>replaced\<close>), followed by the refs for files the scope did not have, in the order in
  which \<^verbatim>\<open>newRefs\<close> first names them (\<open>firsts\<close>), each again in its last version. So when a
  second transaction commits on the resulting manifest and both transactions name a ref
  for the file \<open>f\<close> in that scope, the scope ends with exactly one ref for \<open>f\<close>: the last one
  the second transaction names for it.
\<close>

theorem ref_replacement:
  assumes "find_scope m scopePath = Some k"
    and "distinct (map ref_file (refs (scopes m ! k)))"
    and "r1 = executeTransaction serialize ops1 m ctx1 newRefs1 newFacts1 scopePath w1 h1"
    and "raised r1 = None"
  shows "refs (scopes (manifest r1) ! k) =
           map (replaced newRefs1) (refs (scopes m ! k)) @
           map (replaced newRefs1) (firsts newRefs1 (set (map ref_file (refs (scopes m ! k))))) \<and>
         (\<forall>ops2 ctx2 newRefs2 newFacts2 w2 h2 r2 f.
            r2 = executeTransaction serialize ops2 (manifest r1) ctx2 newRefs2 newFacts2 scopePath w2 h2 \<and>
            raised r2 = None \<and> f \<in> ref_file ` set newRefs1 \<and> f \<in> ref_file ` set newRefs2 \<longrightarrow>
            (\<exists>y. latest f newRefs2 = Some y \<and> y \<in> set newRefs2 \<and>
                 filter (\<lambda>x. ref_file x = f) (refs (scopes (manifest r2) ! k)) = [y]))"
proof -
  let ?old = "refs (scopes m ! k)"
  from assms(3,4) have m1: "manifest r1 = update_manifest m newRefs1 newFacts1 scopePath"
    by (simp add: committed_manifest)
  from update_manifest_scope [OF assms(1)] m1 have
    f1: "find_scope (manifest r1) scopePath = Some k" and
    r1: "refs (scopes (manifest r1) ! k) = update_refs ?old newRefs1"
    by simp_all
  have part1: "refs (scopes (manifest r1) ! k) =
           map (replaced newRefs1) ?old @
           map (replaced newRefs1) (firsts newRefs1 (set (map ref_file ?old)))"
    using r1 by (simp add: update_refs_shape [OF assms(2)])
  from update_refs_files [OF assms(2)] r1 have
    d1: "distinct (map ref_file (refs (scopes (manifest r1) ! k)))" and
    s1: "set (map ref_file (refs (scopes (manifest r1) ! k))) =
         set (map ref_file ?old) \<union> set (map ref_file newRefs1)"
    by simp_all
  have part2: "\<exists>y. latest f newRefs2 = Some y \<and> y \<in> set newRefs2 \<and>
                 filter (\<lambda>x. ref_file x = f) (refs (scopes (manifest r2) ! k)) = [y]"
    if r2: "r2 = executeTransaction serialize ops2 (manifest r1) ctx2 newRefs2 newFacts2 scopePath w2 h2"
      and c2: "raised r2 = None" and in1: "f \<in> ref_file ` set newRefs1"
      and in2: "f \<in> ref_file ` set newRefs2"
    for ops2 ctx2 newRefs2 newFacts2 w2 h2 r2 f
  proof -
    let ?mid = "refs (scopes (manifest r1) ! k)"
    let ?new = "refs (scopes (manifest r2) ! k)"
    from r2 c2 have "manifest r2 = update_manifest (manifest r1) newRefs2 newFacts2 scopePath"
      by (simp add: committed_manifest)
    with update_manifest_scope [OF f1] have n: "?new = update_refs ?mid newRefs2" by simp
    from in2 obtain y where y: "latest f newRefs2 = Some y"
      by (cases "latest f newRefs2") (auto simp: latest_None)
    from latest_file [OF y] have yin: "y \<in> set newRefs2" by simp
    from update_refs_files [OF d1] n have d2: "distinct (map ref_file ?new)" and
      s2: "set (map ref_file ?new) = set (map ref_file ?mid) \<union> set (map ref_file newRefs2)"
      by simp_all
    from in1 s1 s2 have "f \<in> set (map ref_file ?new)" by auto
    from filter_unique [OF d2 this] obtain x where x: "filter (\<lambda>z. ref_file z = f) ?new = [x]"
      by blast
    then have "x \<in> set (filter (\<lambda>z. ref_file z = f) ?new)" by simp
    then have xin: "x \<in> set ?new" and xf: "ref_file x = f" by auto
    from xin n update_refs_shape [OF d1, of newRefs2] obtain l where
      l: "x = replaced newRefs2 l" by auto
    with xf have "ref_file l = f" by simp
    with l y have "x = y" by (simp add: replaced_def)
    with x y yin show ?thesis by simp
  qed
  from part1 part2 show ?thesis by blast
qed


theorem ref_replacement_witness:
  "raised first_commit = None \<and> raised second_commit = None \<and>
   refs (scopes refs_manifest ! 0) = [util_ref] \<and>
   refs (scopes (manifest first_commit) ! 0) = [util_ref, ref_v1] \<and>
   refs (scopes (manifest second_commit) ! 0) = [util_ref, ref_v2, page_ref] \<and>
   filter (\<lambda>x. ref_file x = ''src/app.ts'') (refs (scopes (manifest second_commit) ! 0)) = [ref_v2]"
proof -
  have a: "find_scope refs_manifest ''app'' = Some 0"
    by (simp add: refs_manifest_def find_scope_def)
  have b: "distinct (map ref_file (refs (scopes refs_manifest ! 0)))"
    by (simp add: refs_manifest_def)
  have c: "raised first_commit = None"
    by (simp add: first_commit_def refs_manifest_def io_defs tx_defs scenario_defs)
  have m1: "manifest first_commit =
      refs_manifest\<lparr>scopes := [\<lparr>refs = [util_ref, ref_v1], facts = [], path = ''app''\<rparr>]\<rparr>"
    by (simp add: first_commit_def refs_manifest_def util_ref_def ref_v1_def io_defs tx_defs
        scenario_defs)
  have w1: "faults (disk (state first_commit)) = []"
    "fs (disk (state first_commit)) ''.claudiv/context.cdml'' \<noteq> Some Dir"
    by (simp_all add: first_commit_def refs_manifest_def io_defs tx_defs scenario_defs)
  have d: "raised second_commit = None"
    by (simp add: second_commit_def m1 w1 refs_manifest_def io_defs tx_defs scenario_defs)
  have e: "refs (scopes (manifest second_commit) ! 0) = [util_ref, ref_v2, page_ref]"
    by (simp add: second_commit_def m1 w1 refs_manifest_def util_ref_def ref_v1_def ref_v2_def
        page_ref_def io_defs tx_defs scenario_defs)
  note t = ref_replacement [OF a b first_commit_def c]
  have "\<exists>y. latest ''src/app.ts'' [ref_v2, page_ref] = Some y \<and> y \<in> set [ref_v2, page_ref] \<and>
          filter (\<lambda>x. ref_file x = ''src/app.ts'') (refs (scopes (manifest second_commit) ! 0)) = [y]"
    by (rule t [THEN conjunct2, rule_format])
       (intro conjI, rule second_commit_def, rule d,
        simp_all add: ref_v1_def ref_v2_def page_ref_def)
  then have "filter (\<lambda>x. ref_file x = ''src/app.ts'')
               (refs (scopes (manifest second_commit) ! 0)) = [ref_v2]"
    by (simp add: ref_v2_def page_ref_def)
  with c d e m1 show ?thesis by (simp add: refs_manifest_def)
qed



lemma findIndex_first:
  "k < length xs \<Longrightarrow> P (xs ! k) \<Longrightarrow> \<forall>j<k. \<not> P (xs ! j) \<Longrightarrow> findIndex P xs = Some k"
proof (induction xs arbitrary: k)
  case Nil
  then show ?case by simp
next
  case (Cons x xs)
  show ?case
  proof (cases k)
    case 0
    with Cons.prems show ?thesis by simp
  next
    case (Suc k')
    with Cons.prems have "\<not> P x" by auto
    moreover from Suc Cons.prems have "findIndex P xs = Some k'"
      by (intro Cons.IH) auto
    ultimately show ?thesis using Suc by simp
  qed
qed

lemma overwrite_Nil: "overwrite [] seen xs = xs"
  by (induction xs arbitrary: seen) (simp_all add: replaced_def)

lemma overwrite_seen:
  "ref_file r \<in> seen \<Longrightarrow> overwrite (r # news) seen xs = overwrite news seen xs"
proof (induction xs arbitrary: seen)
  case Nil
  then show ?case by simp
next
  case (Cons x xs)
  from Cons.prems have "overwrite (r # news) (insert (ref_file x) seen) xs =
                        overwrite news (insert (ref_file x) seen) xs"
    by (intro Cons.IH) simp
  moreover have "ref_file x \<notin> seen \<Longrightarrow> replaced (r # news) x = replaced news x"
    using Cons.prems by (intro replaced_Cons_other) auto
  ultimately show ?case by simp
qed

lemma overwrite_absent:
  "\<forall>x\<in>set xs. ref_file x \<noteq> ref_file r \<Longrightarrow> overwrite (r # news) seen xs = overwrite news seen xs"
  by (induction xs arbitrary: seen) (simp_all add: replaced_Cons_other)

lemma overwrite_update:
  "findIndex (\<lambda>x. ref_file x = ref_file r) xs = Some k \<Longrightarrow> ref_file r \<notin> seen \<Longrightarrow>
     overwrite news seen (xs[k := r]) = overwrite (r # news) seen xs"
proof (induction xs arbitrary: k seen)
  case Nil
  then show ?case by simp
next
  case (Cons x xs)
  show ?case
  proof (cases "ref_file x = ref_file r")
    case True
    with Cons.prems(1) have k: "k = 0" by simp
    have "overwrite (r # news) (insert (ref_file r) seen) xs =
          overwrite news (insert (ref_file r) seen) xs"
      by (rule overwrite_seen) simp
    with True k Cons.prems(2) show ?thesis by (simp add: replaced_Cons_same)
  next
    case False
    with Cons.prems(1) obtain k' where
      k: "findIndex (\<lambda>x. ref_file x = ref_file r) xs = Some k'" "k = Suc k'"
      by auto
    from False Cons.prems(2) have "ref_file r \<notin> insert (ref_file x) seen" by auto
    from Cons.IH [OF k(1) this] k(2) False show ?thesis by (simp add: replaced_Cons_other)
  qed
qed

lemma overwrite_snoc:
  "overwrite news seen (xs @ [r]) =
     overwrite news seen xs @
     [if ref_file r \<in> seen \<union> ref_file ` set xs then r else replaced news r]"
  by (induction xs arbitrary: seen) auto

text \<open>Step 2 on any array of refs, duplicates of a file included.\<close>

lemma update_refs_general:
  "update_refs rs news =
     overwrite news {} rs @ map (replaced news) (firsts news (set (map ref_file rs)))"
proof (induction news arbitrary: rs)
  case Nil
  show ?case by (simp add: overwrite_Nil)
next
  case (Cons r news)
  show ?case
  proof (cases "findIndex (\<lambda>x. ref_file x = ref_file r) rs")
    case (Some k)
    from findIndex_Some [OF Some] have kl: "k < length rs" and kf: "ref_file (rs ! k) = ref_file r"
      by auto
    from kl kf have "ref_file r \<in> ref_file ` set rs" by (metis imageI nth_mem)
    then have present: "ref_file r \<in> set (map ref_file rs)" by simp
    have u: "upsert_ref r rs = rs[k := r]" using Some by (simp add: upsert_ref_def)
    have f: "map ref_file (rs[k := r]) = map ref_file rs"
      using kl kf by (simp add: map_update list_update_same_conv)
    have o: "overwrite news {} (rs[k := r]) = overwrite (r # news) {} rs"
      using Some by (rule overwrite_update) simp
    have "\<forall>x\<in>set (firsts news (set (map ref_file rs))). ref_file x \<noteq> ref_file r"
      using present firsts_files by metis
    then have "map (replaced news) (firsts news (set (map ref_file rs))) =
          map (replaced (r # news)) (firsts news (set (map ref_file rs)))"
      by (simp add: replaced_Cons_other)
    with Cons.IH [of "rs[k := r]"] u f o present show ?thesis by simp
  next
    case None
    then have absent: "ref_file r \<notin> set (map ref_file rs)" by (simp add: findIndex_file_None)
    then have ne: "\<forall>x\<in>set rs. ref_file x \<noteq> ref_file r" by (metis image_eqI set_map)
    have u: "upsert_ref r rs = rs @ [r]" using None by (simp add: upsert_ref_def)
    from absent have o1: "overwrite news {} (rs @ [r]) = overwrite news {} rs @ [replaced news r]"
      by (simp add: overwrite_snoc)
    from ne have o2: "overwrite (r # news) {} rs = overwrite news {} rs"
      by (rule overwrite_absent)
    have "\<forall>x\<in>set (firsts news (insert (ref_file r) (set (map ref_file rs)))).
            ref_file x \<noteq> ref_file r"
      using firsts_files by (metis insertI1)
    then have b: "map (replaced news) (firsts news (insert (ref_file r) (set (map ref_file rs)))) =
             map (replaced (r # news)) (firsts news (insert (ref_file r) (set (map ref_file rs))))"
      by (simp add: replaced_Cons_other)
    have c: "replaced news r = replaced (r # news) r" by (simp add: replaced_Cons_same)
    from Cons.IH [of "rs @ [r]"] absent o1 o2 b c show ?thesis by (simp add: u)
  qed
qed

text \<open>
  C6. With no ops the loop of step 1 does nothing and steps 2 to 4 run, on the disk and
  on the manifest object. The persist is the one call made on the disk: a write, to the
  manifest path, of the serialisation of the manifest as the call leaves it; the
  transaction commits exactly when that write does not fail, and then the manifest file
  holds that content and the rest of the tree is as it was. The manifest object: when
  no scope has the path \<^verbatim>\<open>scopePath\<close>, it is the old one with \<^verbatim>\<open>newFacts\<close> appended to the
  facts of the global scope; otherwise, with \<open>k\<close> the first scope that has the path, it is
  the old one but for scope \<open>k\<close>, whose facts are the old ones followed by \<^verbatim>\<open>newFacts\<close> and
  whose refs are the old ones, the first for each file replaced by the last ref of
  \<^verbatim>\<open>newRefs\<close> for that file (\<open>overwrite\<close>), followed by the refs of \<^verbatim>\<open>newRefs\<close> for other
  files, in the order of their first mention, each in its last version.
\<close>

theorem metadata_only_transaction:
  assumes "r = executeTransaction serialize [] m ctx newRefs newFacts scopePath w h"
  shows "trace (disk (state r)) =
           trace w @ [(WriteFile ctx (serialize (manifest r)), can_write ctx w)] \<and>
         (raised r = None) = can_write ctx w \<and>
         (can_write ctx w \<longrightarrow> fs (disk (state r)) = (fs w)(ctx \<mapsto> File (serialize (manifest r)))) \<and>
         ((\<forall>s\<in>set (scopes m). path s \<noteq> scopePath) \<longrightarrow>
            manifest r = m\<lparr>global := (global m)\<lparr>facts := facts (global m) @ newFacts\<rparr>\<rparr>) \<and>
         (\<forall>k. k < length (scopes m) \<and> path (scopes m ! k) = scopePath \<and>
              (\<forall>j<k. path (scopes m ! j) \<noteq> scopePath) \<longrightarrow>
            manifest r =
              m\<lparr>scopes := (scopes m)[k := (scopes m ! k)
                   \<lparr>refs := overwrite newRefs {} (refs (scopes m ! k)) @
                            map (replaced newRefs)
                              (firsts newRefs (set (map ref_file (refs (scopes m ! k))))),
                    facts := facts (scopes m ! k) @ newFacts\<rparr>]\<rparr>)"
proof -
  let ?m2 = "update_manifest m newRefs newFacts scopePath"
  have m2: "manifest r = ?m2"
    using assms by (simp add: manifest_of_outcome)
  have 1: "trace (disk (state r)) = trace w @ [(WriteFile ctx (serialize ?m2), can_write ctx w)]"
    and 2: "(raised r = None) = can_write ctx w"
    and 3: "can_write ctx w \<longrightarrow> fs (disk (state r)) = (fs w)(ctx \<mapsto> File (serialize ?m2))"
    using assms
    by (simp_all add: executeTransaction_def try_block_def Let_def writeFile_eq)
  have 4: "?m2 = m\<lparr>global := (global m)\<lparr>facts := facts (global m) @ newFacts\<rparr>\<rparr>"
    if "\<forall>s\<in>set (scopes m). path s \<noteq> scopePath"
  proof -
    from that have "find_scope m scopePath = None" by (simp add: find_scope_def findIndex_None)
    then show ?thesis by (rule update_manifest_missing)
  qed
  have 5: "?m2 = m\<lparr>scopes := (scopes m)[k := (scopes m ! k)
                   \<lparr>refs := overwrite newRefs {} (refs (scopes m ! k)) @
                            map (replaced newRefs)
                              (firsts newRefs (set (map ref_file (refs (scopes m ! k))))),
                    facts := facts (scopes m ! k) @ newFacts\<rparr>]\<rparr>"
    if "k < length (scopes m)" "path (scopes m ! k) = scopePath"
       "\<forall>j<k. path (scopes m ! j) \<noteq> scopePath" for k
  proof -
    from that have "find_scope m scopePath = Some k"
      unfolding find_scope_def by (intro findIndex_first) simp_all
    then show ?thesis by (simp add: update_manifest_found update_refs_general)
  qed
  from 1 2 3 4 5 show ?thesis unfolding m2 by blast
qed

theorem metadata_only_transaction_witness:
  "raised metadata_commit = None \<and>
   manifest metadata_commit =
     stocked_manifest\<lparr>scopes := [\<lparr>refs = [util_ref, ref_v2, page_ref],
                                  facts = [fact_rest, fact_cache], path = ''app''\<rparr>]\<rparr> \<and>
   trace (disk (state metadata_commit)) =
     [(WriteFile ''.claudiv/context.cdml''
         ''appsrc/util.tssrc/app.tssrc/page.tsuses RESTcaches GET'', True)] \<and>
   fs (disk (state metadata_commit)) =
     [''.claudiv'' \<mapsto> Dir,
      ''.claudiv/context.cdml'' \<mapsto>
        File ''appsrc/util.tssrc/app.tssrc/page.tsuses RESTcaches GET'']"
proof -
  note t = metadata_only_transaction [OF metadata_commit_def]
  have k: "0 < length (scopes stocked_manifest) \<and> path (scopes stocked_manifest ! 0) = ''app'' \<and>
           (\<forall>j<0. path (scopes stocked_manifest ! j) \<noteq> ''app'')"
    by (simp add: stocked_manifest_def)
  from t [THEN conjunct2, THEN conjunct2, THEN conjunct2, THEN conjunct2, THEN spec, THEN mp, OF k]
  have m: "manifest metadata_commit =
     stocked_manifest\<lparr>scopes := [\<lparr>refs = [util_ref, ref_v2, page_ref],
                                  facts = [fact_rest, fact_cache], path = ''app''\<rparr>]\<rparr>"
    by (simp add: stocked_manifest_def replaced_def util_ref_def ref_v1_def ref_v2_def page_ref_def)
  then have s: "toy_serialize (manifest metadata_commit) =
                ''appsrc/util.tssrc/app.tssrc/page.tsuses RESTcaches GET''"
    by (simp add: stocked_manifest_def toy_serialize_def util_ref_def ref_v2_def page_ref_def
        fact_rest_def fact_cache_def)
  have c: "can_write ''.claudiv/context.cdml'' (disk_with project_tree [])"
    by (simp add: can_write_def injected_def disk_with_def project_tree_def)
  from t c s have "raised metadata_commit = None"
    and "trace (disk (state metadata_commit)) =
     [(WriteFile ''.claudiv/context.cdml''
         ''appsrc/util.tssrc/app.tssrc/page.tsuses RESTcaches GET'', True)]"
    and "fs (disk (state metadata_commit)) =
     [''.claudiv'' \<mapsto> Dir,
      ''.claudiv/context.cdml'' \<mapsto>
        File ''appsrc/util.tssrc/app.tssrc/page.tsuses RESTcaches GET'']"
    by (simp_all add: disk_with_def project_tree_def)
  with m show ?thesis by simp
qed

section \<open>Properties of the system manager\<close>


lemmas scaffold_defs = createSystemComponents_def create_component_def create_dir_def ensure_dir_def
  write_if_absent_def updateProjectManifest_def git_submodule_add_def join_def

lemma mkdir_Inr:
  "mkdir p w = (Inr u, w1) \<Longrightarrow> p \<in> dom (fs w1) \<and> dom (fs w) \<subseteq> dom (fs w1)"
  by (auto simp: mkdir_def raise_io_def done_io_def consume_def
      split: if_splits option.splits node.splits)

lemma mkdir_Inl: "mkdir p w = (Inl e, w1) \<Longrightarrow> fs w1 = fs w"
  by (auto simp: mkdir_def raise_io_def done_io_def consume_def
      split: if_splits option.splits node.splits)

lemma git_Inr:
  "git_submodule_add n root w = (Inr u, w1) \<Longrightarrow>
     join root n \<in> dom (fs w1) \<and> dom (fs w) \<subseteq> dom (fs w1)"
  by (auto simp: git_submodule_add_def raise_io_def done_io_def consume_def Let_def
      split: if_splits)

lemma git_Inl: "git_submodule_add n root w = (Inl e, w1) \<Longrightarrow> dom (fs w) \<subseteq> dom (fs w1)"
  by (auto simp: git_submodule_add_def raise_io_def done_io_def consume_def Let_def
      split: if_splits list.splits fault.splits)

lemma torn_dom: "dom (fs w) \<subseteq> dom (torn p c w)"
  by (auto simp: torn_def split: list.splits fault.splits)

lemma torn_same:
  "fs w p = Some (File c) \<Longrightarrow>
     (\<forall>q. q \<noteq> p \<longrightarrow> torn p c w q = fs w q) \<and> (\<exists>n. torn p c w p = Some (File (take n c)))"
proof -
  assume a: "fs w p = Some (File c)"
  from torn_cases [of p c w] have "\<forall>q. q \<noteq> p \<longrightarrow> torn p c w q = fs w q" by simp
  moreover from torn_cases [of p c w] have "\<exists>n. torn p c w p = Some (File (take n c))"
  proof (elim conjE disjE)
    assume "torn p c w p = fs w p"
    with a have "torn p c w p = Some (File (take (length c) c))" by simp
    then show ?thesis ..
  qed
  ultimately show ?thesis by simp
qed

lemma ensure_dir_grows: "ensure_dir d w = (r, w1) \<Longrightarrow> dom (fs w) \<subseteq> dom (fs w1)"
  by (cases r) (auto simp: ensure_dir_def split: if_splits prod.splits sum.splits
      dest!: mkdir_Inr mkdir_Inl)

lemma ensure_dir_done: "ensure_dir d w = (None, w1) \<Longrightarrow> d \<in> dom (fs w1)"
  by (auto simp: ensure_dir_def existsSync_def split: if_splits prod.splits sum.splits
      dest!: mkdir_Inr)

lemma ensure_dir_skip: "d \<in> dom (fs w) \<Longrightarrow> ensure_dir d w = (None, w)"
  by (auto simp: ensure_dir_def existsSync_def)

lemma create_dir_grows: "create_dir c root w = (r, w1) \<Longrightarrow> dom (fs w) \<subseteq> dom (fs w1)"
proof -
  assume a: "create_dir c root w = (r, w1)"
  show ?thesis
  proof (cases "submodule c \<and> \<not> existsSync (join root (name c)) w")
    case False
    with a ensure_dir_grows show ?thesis
      by (auto simp: create_dir_def Let_def split: if_splits)
  next
    case True
    obtain g w0 where g: "git_submodule_add (name c) root w = (g, w0)"
      by (cases "git_submodule_add (name c) root w")
    show ?thesis
    proof (cases g)
      case (Inr u)
      with a True g git_Inr [of "name c" root w u w0] show ?thesis
        by (simp add: create_dir_def Let_def)
    next
      case (Inl e)
      with g git_Inl have "dom (fs w) \<subseteq> dom (fs w0)" by blast
      moreover from a True g Inl have "ensure_dir (join root (name c)) w0 = (r, w1)"
        by (simp add: create_dir_def Let_def)
      then have "dom (fs w0) \<subseteq> dom (fs w1)" by (rule ensure_dir_grows)
      ultimately show ?thesis by blast
    qed
  qed
qed

lemma create_dir_done: "create_dir c root w = (None, w1) \<Longrightarrow> join root (name c) \<in> dom (fs w1)"
  by (auto simp: create_dir_def Let_def existsSync_def split: if_splits prod.splits sum.splits
      dest!: git_Inr ensure_dir_done)

lemma create_dir_skip: "join root (name c) \<in> dom (fs w) \<Longrightarrow> create_dir c root w = (None, w)"
  by (auto simp: create_dir_def Let_def existsSync_def ensure_dir_skip)

lemma write_if_absent_grows:
  "write_if_absent p t l (w, cr) = (r, w1, cr1) \<Longrightarrow> dom (fs w) \<subseteq> dom (fs w1)"
  using torn_dom [of w p t]
  by (cases r) (auto simp: write_if_absent_def split: if_splits prod.splits sum.splits
      dest!: writeFile_Inr writeFile_Inl)

lemma write_if_absent_done:
  "write_if_absent p t l (w, cr) = (None, w1, cr1) \<Longrightarrow> p \<in> dom (fs w1)"
  by (auto simp: write_if_absent_def existsSync_def split: if_splits prod.splits sum.splits
      dest!: writeFile_Inr)

lemma write_if_absent_skip:
  "p \<in> dom (fs w) \<Longrightarrow> write_if_absent p t l (w, cr) = (None, w, cr)"
  by (auto simp: write_if_absent_def existsSync_def)

lemma create_component_skip:
  "\<forall>p\<in>set (component_paths root c). p \<in> dom (fs w) \<Longrightarrow>
     create_component sn root c (w, cr) = (None, w, cr)"
  by (simp add: create_component_def component_paths_def Let_def create_dir_skip
      write_if_absent_skip ensure_dir_skip)

lemma create_component_grows:
  assumes "create_component sn root c (w, cr) = (r, w4, cr4)"
  shows "dom (fs w) \<subseteq> dom (fs w4) \<and>
         (r = None \<longrightarrow> (\<forall>p\<in>set (component_paths root c). p \<in> dom (fs w4)))"
proof -
  let ?dir = "join root (name c)"
  let ?cdml = "join ?dir (name c @ ''.cdml'')"
  let ?cl = "join ?dir ''.claudiv''"
  let ?cx = "join ?cl ''context.cdml''"
  obtain r1 w1 where s1: "create_dir c root w = (r1, w1)" by (cases "create_dir c root w")
  note g1 = create_dir_grows [OF s1]
  show ?thesis
  proof (cases r1)
    case (Some e)
    with assms s1 have "r = Some e" "w4 = w1" by (simp_all add: create_component_def Let_def)
    with g1 show ?thesis by simp
  next
    case None
    with s1 create_dir_done have d1: "?dir \<in> dom (fs w1)" by blast
    obtain r2 w2 cr2 where s2: "write_if_absent ?cdml (generateComponentSkeleton c sn)
        (name c @ ''/'' @ name c @ ''.cdml'') (w1, cr) = (r2, w2, cr2)"
      by (cases "write_if_absent ?cdml (generateComponentSkeleton c sn)
        (name c @ ''/'' @ name c @ ''.cdml'') (w1, cr)") auto
    note g2 = write_if_absent_grows [OF s2]
    show ?thesis
    proof (cases r2)
      case (Some e)
      with assms s1 s2 None have "r = Some e" "w4 = w2"
        by (simp_all add: create_component_def Let_def)
      with g1 g2 show ?thesis by (simp, blast?)
    next
      case None2: None
      with s2 write_if_absent_done have d2: "?cdml \<in> dom (fs w2)" by blast
      obtain r3 w3 where s3: "ensure_dir ?cl w2 = (r3, w3)" by (cases "ensure_dir ?cl w2")
      note g3 = ensure_dir_grows [OF s3]
      show ?thesis
      proof (cases r3)
        case (Some e)
        with assms s1 s2 s3 None None2 have "r = Some e" "w4 = w3"
          by (simp_all add: create_component_def Let_def)
        with g1 g2 g3 show ?thesis by (simp, blast?)
      next
        case None3: None
        with s3 ensure_dir_done have d3: "?cl \<in> dom (fs w3)" by blast
        from assms s1 s2 s3 None None2 None3 have s4:
          "write_if_absent ?cx (generateComponentContext c sn)
             (name c @ ''/.claudiv/context.cdml'') (w3, cr2) = (r, w4, cr4)"
          by (simp add: create_component_def Let_def)
        note g4 = write_if_absent_grows [OF s4]
        have "r = None \<longrightarrow> ?cx \<in> dom (fs w4)" using s4 write_if_absent_done by blast
        with g1 g2 g3 g4 d1 d2 d3 show ?thesis
          by (simp add: component_paths_def Let_def, blast?)
      qed
    qed
  qed
qed

lemma create_components_skip:
  "\<forall>c\<in>set cs. \<forall>p\<in>set (component_paths root c). p \<in> dom (fs w) \<Longrightarrow>
     create_components sn root cs (w, cr) = (None, w, cr)"
  by (induction cs) (simp_all add: create_component_skip)

lemma create_components_done:
  "create_components sn root cs (w, cr) = (None, w1, cr1) \<Longrightarrow>
     dom (fs w) \<subseteq> dom (fs w1) \<and>
     (\<forall>c\<in>set cs. \<forall>p\<in>set (component_paths root c). p \<in> dom (fs w1))"
proof (induction cs arbitrary: w cr)
  case Nil
  then show ?case by simp
next
  case (Cons c cs)
  obtain r0 w0 cr0 where s: "create_component sn root c (w, cr) = (r0, w0, cr0)"
    by (cases "create_component sn root c (w, cr)") auto
  with Cons.prems have r0: "r0 = None" and rest: "create_components sn root cs (w0, cr0) = (None, w1, cr1)"
    by (auto split: option.splits)
  from create_component_grows [OF s] r0 have
    g: "dom (fs w) \<subseteq> dom (fs w0)" and d: "\<forall>p\<in>set (component_paths root c). p \<in> dom (fs w0)"
    by auto
  from Cons.IH [OF rest] have
    g1: "dom (fs w0) \<subseteq> dom (fs w1)" and
    d1: "\<forall>c\<in>set cs. \<forall>p\<in>set (component_paths root c). p \<in> dom (fs w1)"
    by blast+
  from g g1 have "dom (fs w) \<subseteq> dom (fs w1)" by blast
  moreover from d g1 have "\<forall>p\<in>set (component_paths root c). p \<in> dom (fs w1)" by blast
  ultimately show ?case using d1 by simp
qed

text \<open>
  C7, as the code has it. Step 4 of \<^verbatim>\<open>createSystemComponents\<close> calls
  \<^verbatim>\<open>updateProjectManifest\<close>, which writes the project manifest without looking whether it
  is there. So after a run that succeeded, a second run on the same system document
  (under any schedule \<open>fl\<close> of failures) makes one call on the disk and no other: the
  write of the project manifest, with the content the file already has. No directory is
  made, no skeleton and no context manifest is written, and every path but the project
  manifest holds after the second run what it held after the first. When the write
  succeeds the whole tree is the tree after the first run; when it fails the project
  manifest holds the part of its content that the write got to.
\<close>

theorem scaffolder_second_run:
  assumes "createSystemComponents system root w = (Inr created, w1)"
    and "second = createSystemComponents system root (w1\<lparr>faults := fl\<rparr>)"
    and "manifest_file = join root ''claudiv.project.cdml''"
  shows "fs w1 manifest_file = Some (File (project_manifest_content system)) \<and>
         trace (snd second) =
           trace w1 @ [(WriteFile manifest_file (project_manifest_content system),
                        \<not> injected (w1\<lparr>faults := fl\<rparr>))] \<and>
         (\<forall>p. p \<noteq> manifest_file \<longrightarrow> fs (snd second) p = fs w1 p) \<and>
         (\<exists>n. fs (snd second) manifest_file =
                Some (File (take n (project_manifest_content system)))) \<and>
         (\<not> injected (w1\<lparr>faults := fl\<rparr>) \<longrightarrow>
            fs (snd second) = fs w1 \<and> fst second = Inr [''claudiv.project.cdml (updated)''])"
proof -
  let ?c = "project_manifest_content system"
  let ?w = "w1\<lparr>faults := fl\<rparr>"
  from assms(1) obtain w0 cr0 where
    cc: "create_components (system_name system) root (components system) (w, []) = (None, w0, cr0)"
    and wr: "writeFile manifest_file ?c w0 = (Inr (), w1)"
    by (auto simp: createSystemComponents_def updateProjectManifest_def assms(3)
        split: prod.splits option.splits sum.splits)
  from writeFile_Inr [OF wr] have f1: "fs w1 = (fs w0)(manifest_file \<mapsto> File ?c)" by simp
  then have mf: "fs w1 manifest_file = Some (File ?c)" by simp
  from create_components_done [OF cc] f1 have
    "\<forall>c\<in>set (components system). \<forall>p\<in>set (component_paths root c). p \<in> dom (fs ?w)"
    by auto
  then have skip: "create_components (system_name system) root (components system) (?w, []) =
      (None, ?w, [])"
    by (rule create_components_skip)
  have cw: "can_write manifest_file ?w = (\<not> injected ?w)"
    using mf by (simp add: can_write_def)
  have same: "(fs w1)(manifest_file \<mapsto> File ?c) = fs w1" using mf by (simp add: map_upd_triv)
  show ?thesis
  proof (cases "injected ?w")
    case True
    from mf have "fs ?w manifest_file = Some (File ?c)" by simp
    from torn_same [OF this] have
      "\<forall>q. q \<noteq> manifest_file \<longrightarrow> torn manifest_file ?c ?w q = fs w1 q"
      "\<exists>n. torn manifest_file ?c ?w manifest_file = Some (File (take n ?c))"
      by simp_all
    with True skip cw mf assms(2,3) show ?thesis
      by (simp add: createSystemComponents_def updateProjectManifest_def writeFile_eq)
  next
    case False
    have "fs w1 manifest_file = Some (File (take (length ?c) ?c))" using mf by simp
    then have "\<exists>n. fs w1 manifest_file = Some (File (take n ?c))" ..
    with False skip cw mf same assms(2,3) show ?thesis
      by (simp add: createSystemComponents_def updateProjectManifest_def writeFile_eq)
  qed
qed


theorem scaffolder_second_run_witness:
  "fst first_run = Inr [''web/web.cdml'', ''web/.claudiv/context.cdml'', ''api/api.cdml'',
     ''api/.claudiv/context.cdml'', ''claudiv.project.cdml (updated)''] \<and>
   fst second_run = Inr [''claudiv.project.cdml (updated)''] \<and>
   fs (snd second_run) = fs (snd first_run) \<and>
   trace (snd second_run) =
     trace (snd first_run) @
       [(WriteFile ''proj/claudiv.project.cdml'' (project_manifest_content shop), True)]"
proof -
  have a: "fst first_run = Inr [''web/web.cdml'', ''web/.claudiv/context.cdml'', ''api/api.cdml'',
     ''api/.claudiv/context.cdml'', ''claudiv.project.cdml (updated)'']"
    by (simp add: first_run_def shop_def scaffold_defs io_defs disk_with_def Let_def)
  then have b: "createSystemComponents shop ''proj'' (disk_with Map.empty []) =
      (Inr [''web/web.cdml'', ''web/.claudiv/context.cdml'', ''api/api.cdml'',
            ''api/.claudiv/context.cdml'', ''claudiv.project.cdml (updated)''], snd first_run)"
    by (simp add: first_run_def prod_eq_iff)
  have c: "faults (snd first_run) = []"
    by (simp add: first_run_def shop_def scaffold_defs io_defs disk_with_def Let_def)
  have "(snd first_run)\<lparr>faults := []\<rparr> = snd first_run"
    by (subst c [symmetric]) simp
  then have d: "second_run = createSystemComponents shop ''proj'' ((snd first_run)\<lparr>faults := []\<rparr>)"
    by (simp add: second_run_def)
  have e: "\<not> injected ((snd first_run)\<lparr>faults := []\<rparr>)" by (simp add: injected_def)
  from scaffolder_second_run [OF b d refl] a e show ?thesis by (simp add: join_def)
qed

theorem scaffolder_idempotence_counterexample:
  "(fst first_run = Inr [''web/web.cdml'', ''web/.claudiv/context.cdml'', ''api/api.cdml'',
      ''api/.claudiv/context.cdml'', ''claudiv.project.cdml (updated)''] \<and>
    fs (snd first_run) ''proj/claudiv.project.cdml'' = Some (File (project_manifest_content shop)) \<and>
    drop (length (trace (snd first_run))) (trace (snd second_run)) =
      [(WriteFile ''proj/claudiv.project.cdml'' (project_manifest_content shop), True)]) \<and>
   (drop (length (trace (snd first_run))) (trace (snd second_run_torn)) =
      [(WriteFile ''proj/claudiv.project.cdml'' (project_manifest_content shop), False)] \<and>
    fs (snd second_run_torn) ''proj/claudiv.project.cdml'' = Some (File []))"
  by (simp add: second_run_def second_run_torn_def first_run_def shop_def scaffold_defs io_defs
      disk_with_def Let_def)

section \<open>Properties of the watch loop\<close>













end
